theory Spec2Isabelle
  imports
    Complex_Main
    "HOL-Library.List_Lexorder"
    "HOL-Library.Char_ord"
    "HOL-Library.Log_Nat"
begin

section \<open>The coalition builder's client: \<^verbatim>\<open>static/js/main.js\<close>\<close>

text \<open>
  The script keeps three global arrays (\<^verbatim>\<open>parties\<close>, \<^verbatim>\<open>exclusions\<close>,
  \<^verbatim>\<open>inclusions\<close>), a drag state, and reads and writes the page. The model is a
  record of the globals and of the parts of the page the functions below read or write;
  every function takes the state and returns the new one. Calls to \<^verbatim>\<open>alert\<close> and
  \<^verbatim>\<open>fetch\<close> are appended to two logs of the state. A function that awaits a server
  response takes that response as an argument.

  Left out, since they only paint: the bar chart (\<^verbatim>\<open>initializeChart\<close>,
  \<^verbatim>\<open>updateChart\<close>), the SVG axes and coalition lines, colours, sizes, tooltips, the
  party-info panel, the lists that display the constraints, and the coalition table.
\<close>

subsection \<open>Numbers\<close>

text \<open>
  A JavaScript number is an IEEE-754 binary64 value. Coordinates and pixel positions are
  modelled as the real numbers that binary64 values denote, and every \<^verbatim>\<open>+\<close>, \<^verbatim>\<open>-\<close>,
  \<^verbatim>\<open>*\<close> and \<^verbatim>\<open>/\<close> on them rounds its exact result to the nearest binary64 value, a
  tie to the one with the even significand: \<open>binary64\<close> below, normal and subnormal
  range. This is the arithmetic of the language, not a function of the script. Unary
  minus, \<^verbatim>\<open>Math.max\<close> and \<^verbatim>\<open>Math.min\<close> are exact. Overflow to \<^verbatim>\<open>Infinity\<close> (a result of
  magnitude \<open>2^1024\<close> or more), \<^verbatim>\<open>NaN\<close> and division by zero are outside the model.

  Seat counts are whole numbers and are modelled as \<^typ>\<open>int\<close>. Their \<^verbatim>\<open>+\<close> and \<^verbatim>\<open>-\<close>
  round in the same way (\<open>plus64\<close>, \<open>minus64\<close>): the rounded result is again a whole
  number, and it is the exact one as long as its magnitude is at most \<open>2^53\<close>.
\<close>

definition rne :: "real \<Rightarrow> int" where
  \<comment> \<open>round to the nearest integer, a tie to the even one\<close>
  "rne r = (let f = \<lfloor>r\<rfloor>; d = r - of_int f in
     if d < 1/2 then f else if 1/2 < d then f + 1 else if even f then f else f + 1)"

definition expo :: "real \<Rightarrow> int" where
  \<comment> \<open>for \<open>x > 0\<close>, the \<open>e\<close> with \<open>2^e \<le> x < 2^(e+1)\<close>\<close>
  "expo x = (if 1 \<le> x then bitlen \<lfloor>x\<rfloor> - 1 else - bitlen (\<lceil>1 / x\<rceil> - 1))"

definition ulp64 :: "real \<Rightarrow> real" where
  \<comment> \<open>the spacing of binary64 values around \<open>x\<close>: 53 significant bits, and the
      subnormal spacing \<open>2^-1074\<close> below \<open>2^-1022\<close>\<close>
  "ulp64 x = 2 powi (max (expo \<bar>x\<bar>) (- 1022) - 52)"

definition binary64 :: "real \<Rightarrow> real" where
  "binary64 x = (if x = 0 then 0 else of_int (rne (x / ulp64 x)) * ulp64 x)"

definition exact :: "real \<Rightarrow> real" where
  \<comment> \<open>arithmetic without rounding, for comparison\<close>
  "exact x = x"

definition plus64 :: "int \<Rightarrow> int \<Rightarrow> int" where
  \<comment> \<open>\<^verbatim>\<open>a + b\<close> on whole numbers\<close>
  "plus64 a b = \<lfloor>binary64 (of_int a + of_int b)\<rfloor>"

definition minus64 :: "int \<Rightarrow> int \<Rightarrow> int" where
  \<comment> \<open>\<^verbatim>\<open>a - b\<close> on whole numbers\<close>
  "minus64 a b = \<lfloor>binary64 (of_int a - of_int b)\<rfloor>"

subsection \<open>Data\<close>

record party =
  name :: string
  seats :: int
  economic :: real
  social :: real

record rect =
  rect_left :: real
  rect_top :: real
  rect_width :: real
  rect_height :: real

text \<open>\<^verbatim>\<open>dragState\<close>; its fields \<^verbatim>\<open>startX\<close>, \<^verbatim>\<open>startY\<close> are never used.\<close>

record drag_state =
  isDragging :: bool
  dragParty :: "party option"
  containerRect :: "rect option"

text \<open>A row of the party table: the text of the name cell, the text of the seats cell,
  and the checkbox with its \<^verbatim>\<open>data-party\<close> attribute.\<close>

record table_row =
  row_name :: string
  row_seats :: string
  checkbox_party :: string
  checked :: bool

text \<open>A \<^verbatim>\<open>select\<close> element: its options (\<^verbatim>\<open>value\<close> attribute, text) and its
  current value.\<close>

record dropdown =
  options :: "(string \<times> string) list"
  selected_value :: string

text \<open>A party circle on the spectrum map: \<^verbatim>\<open>dataset.party\<close>, \<^verbatim>\<open>style.left\<close>,
  \<^verbatim>\<open>style.top\<close> (in pixels) and the class \<^verbatim>\<open>selected\<close>.\<close>

record spectrum_party =
  data_party :: string
  style_left :: real
  style_top :: real
  is_selected :: bool

text \<open>The text of \<^verbatim>\<open>coalition-info\<close>: "Coalition seats: s / 150 Majority" or
  "Coalition seats: s / 150 (n more needed)".\<close>

datatype coalition_info = NoInfo | Majority int | MoreNeeded int int

text \<open>Requests sent with \<^verbatim>\<open>fetch\<close>. \<^verbatim>\<open>parseInt\<close> gives an integer or \<^verbatim>\<open>NaN\<close>
  (\<open>None\<close>, which \<^verbatim>\<open>JSON.stringify\<close> writes as \<^verbatim>\<open>null\<close>).\<close>

datatype request =
    ChangePoll string
  | UpdatePosition string real real
  | Coalitions "int option" "int option" "string list list" "string list list"

text \<open>What an awaited \<^verbatim>\<open>fetch\<close> and \<^verbatim>\<open>response.json()\<close> give: an exception
  (\<open>Failed\<close>) or the decoded body.\<close>

datatype 'a fetched = Failed | Reply 'a

record position_data =
  data_success :: bool
  data_parties :: "party list"

record poll_data = position_data +
  data_total_seats :: int

text \<open>The outcome of \<^verbatim>\<open>addExclusion\<close> and \<^verbatim>\<open>addInclusion\<close>: the early
  \<^verbatim>\<open>return\<close> after an \<^verbatim>\<open>alert\<close>, or the push.\<close>

datatype add_result = Rejected | Added

record client =
  parties :: "party list"
  exclusions :: "string list list"
  inclusions :: "string list list"
  dragState :: drag_state
  party_tbody :: "table_row list"
  exclude_party1 :: dropdown
  exclude_party2 :: dropdown
  include_party1 :: dropdown
  include_party2 :: dropdown
  min_parties :: "int option"
  max_parties :: "int option"
  poll_dropdown :: string
  total_seats_shown :: int
  coalition_info :: coalition_info
  offsetWidth :: real
  offsetHeight :: real
  spectrum :: "spectrum_party list"
  alerts :: "string list"
  requests :: "request list"

text \<open>The two number inputs \<^verbatim>\<open>min-parties\<close> and \<^verbatim>\<open>max-parties\<close> are modelled by
  what \<^verbatim>\<open>parseInt\<close> reads from them. \<open>offsetWidth\<close> and \<open>offsetHeight\<close> are those
  of the spectrum container; \<open>total_seats_shown\<close> is the number in the line
  "Total seats: n".\<close>

definition alert :: "string \<Rightarrow> client \<Rightarrow> client" where
  "alert msg st = st\<lparr>alerts := alerts st @ [msg]\<rparr>"

definition fetch :: "request \<Rightarrow> client \<Rightarrow> client" where
  "fetch r st = st\<lparr>requests := requests st @ [r]\<rparr>"

subsection \<open>Markup\<close>

text \<open>
  The script fills the party table and the four dropdowns by writing markup: it builds a
  string, with each party's name and seat number put in as they are, and assigns it to
  \<^verbatim>\<open>innerHTML\<close>. The page then holds what the browser reads from that string. That
  reading is the browser's, not the script's. It is modelled for markup made of the
  elements that the script's templates write, with texts that the browser takes as they
  are: between two tags, a text without \<^verbatim>\<open>&\<close>, \<^verbatim>\<open><\<close>, NUL and carriage return;
  between double quotes, a text without \<^verbatim>\<open>&\<close>, double quote, NUL and carriage
  return. Markup of any other shape is not read here (\<open>None\<close>), and what the page
  then holds is left open (\<open>the None\<close>). A name is plain when it is read back as it
  is in both places.
\<close>

definition text_plain :: "string \<Rightarrow> bool" where
  "text_plain s =
     list_all (\<lambda>c. c \<notin> set ''&<'' \<and> c \<noteq> CHR 0x00 \<and> c \<noteq> CHR 0x0D) s"

definition attr_plain :: "string \<Rightarrow> bool" where
  "attr_plain s =
     list_all (\<lambda>c. c \<noteq> CHR ''&'' \<and> c \<noteq> CHR 0x22 \<and> c \<noteq> CHR 0x00 \<and> c \<noteq> CHR 0x0D) s"

definition html_plain :: "string \<Rightarrow> bool" where
  "html_plain s = (text_plain s \<and> attr_plain s)"

definition quoted :: "string \<Rightarrow> string" where
  \<comment> \<open>a text between double quotes\<close>
  "quoted s = [CHR 0x22] @ s @ [CHR 0x22]"

definition line :: "nat \<Rightarrow> string" where
  \<comment> \<open>a line break of a template literal and the indentation after it\<close>
  "line n = CHR 0x0A # replicate n (CHR '' '')"

fun digits :: "nat \<Rightarrow> string" where
  "digits n = (if n < 10 then [''0123456789'' ! n]
               else digits (n div 10) @ [''0123456789'' ! (n mod 10)])"

definition number_text :: "int \<Rightarrow> string option" where
  \<comment> \<open>a whole number in a template literal: its decimal digits, for a magnitude below
      \<open>10^21\<close>; from there on the language writes an exponent, which is left out\<close>
  "number_text n =
    (if \<bar>n\<bar> < 10 ^ 21 then Some ((if n < 0 then ''-'' else []) @ digits (nat \<bar>n\<bar>)) else None)"

definition option_element :: "string \<Rightarrow> string \<Rightarrow> string" where
  \<comment> \<open>\<^verbatim>\<open><option value="v">t</option>\<close>\<close>
  "option_element v t = ''<option value='' @ quoted v @ ''>'' @ t @ ''</option>''"

definition row_template :: "party \<Rightarrow> string option" where
  \<comment> \<open>the template literal of \<^verbatim>\<open>populatePartyTable\<close>\<close>
  "row_template party = map_option (\<lambda>seats_text.
       line 12 @ ''<td>'' @ name party @ ''</td>''
     @ line 12 @ ''<td>'' @ seats_text @ ''</td>''
     @ line 12 @ ''<td><input type='' @ quoted ''checkbox'' @ '' class='' @ quoted ''party-checkbox''
         @ '' data-party='' @ quoted (name party)
         @ '' onchange='' @ quoted ''updateVisualization()'' @ ''></td>''
     @ line 8) (number_text (seats party))"

text \<open>Reading: a given piece of markup, a text up to the next tag, an attribute value
  up to the closing quote.\<close>

fun literal :: "string \<Rightarrow> string \<Rightarrow> string option" where
  \<comment> \<open>what follows the given piece\<close>
  "literal [] s = Some s"
| "literal (c # cs) [] = None"
| "literal (c # cs) (d # ds) = (if c = d then literal cs ds else None)"

definition text_until :: "string \<Rightarrow> (string \<times> string) option" where
  "text_until s =
    (let t = takeWhile (\<lambda>c. c \<noteq> CHR ''<'') s in
     if text_plain t then Some (t, dropWhile (\<lambda>c. c \<noteq> CHR ''<'') s) else None)"

definition value_until :: "string \<Rightarrow> (string \<times> string) option" where
  "value_until s =
    (let t = takeWhile (\<lambda>c. c \<noteq> CHR 0x22) s in
     if attr_plain t then Some (t, dropWhile (\<lambda>c. c \<noteq> CHR 0x22) s) else None)"

definition read_option :: "string \<Rightarrow> ((string \<times> string) \<times> string) option" where
  \<comment> \<open>one \<^verbatim>\<open>option\<close> element, and the markup after it\<close>
  "read_option s =
    (case literal ''<option value='' s of None \<Rightarrow> None | Some s1 \<Rightarrow>
     case literal [CHR 0x22] s1 of None \<Rightarrow> None | Some s2 \<Rightarrow>
     case value_until s2 of None \<Rightarrow> None | Some (v, s3) \<Rightarrow>
     case literal (CHR 0x22 # ''>'') s3 of None \<Rightarrow> None | Some s4 \<Rightarrow>
     case text_until s4 of None \<Rightarrow> None | Some (t, s5) \<Rightarrow>
     case literal ''</option>'' s5 of None \<Rightarrow> None | Some s6 \<Rightarrow> Some ((v, t), s6))"

fun read_options :: "nat \<Rightarrow> string \<Rightarrow> (string \<times> string) list option" where
  \<comment> \<open>a sequence of \<^verbatim>\<open>option\<close> elements; the first argument bounds their number\<close>
  "read_options 0 s = (if s = [] then Some [] else None)"
| "read_options (Suc n) s =
    (if s = [] then Some []
     else case read_option s of None \<Rightarrow> None
          | Some (opt, rest) \<Rightarrow> map_option ((#) opt) (read_options n rest))"

definition select_innerHTML :: "string \<Rightarrow> dropdown" where
  \<comment> \<open>\<^verbatim>\<open>select.innerHTML = markup\<close>: the options read, the first one selected\<close>
  "select_innerHTML markup =
    (let opts = the (read_options (length markup) markup) in
     \<lparr>options = opts, selected_value = (case opts of [] \<Rightarrow> [] | (v, t) # others \<Rightarrow> v)\<rparr>)"

definition read_row :: "string \<Rightarrow> table_row option" where
  \<comment> \<open>the three cells of a row; the line breaks and blanks between them are not kept\<close>
  "read_row s =
    (case literal (line 12 @ ''<td>'') s of None \<Rightarrow> None | Some s1 \<Rightarrow>
     case text_until s1 of None \<Rightarrow> None | Some (n, s2) \<Rightarrow>
     case literal (''</td>'' @ line 12 @ ''<td>'') s2 of None \<Rightarrow> None | Some s3 \<Rightarrow>
     case text_until s3 of None \<Rightarrow> None | Some (k, s4) \<Rightarrow>
     case literal (''</td>'' @ line 12 @ ''<td><input type='' @ quoted ''checkbox''
            @ '' class='' @ quoted ''party-checkbox'' @ '' data-party='' @ [CHR 0x22]) s4 of
       None \<Rightarrow> None | Some s5 \<Rightarrow>
     case value_until s5 of None \<Rightarrow> None | Some (d, s6) \<Rightarrow>
     case literal ([CHR 0x22] @ '' onchange='' @ quoted ''updateVisualization()''
            @ ''></td>'' @ line 8) s6 of
       None \<Rightarrow> None
     | Some s7 \<Rightarrow>
         if s7 = []
         then Some \<lparr>row_name = n, row_seats = k, checkbox_party = d, checked = False\<rparr>
         else None)"

definition row_innerHTML :: "string option \<Rightarrow> table_row" where
  \<comment> \<open>\<^verbatim>\<open>row.innerHTML = markup\<close> on a new row\<close>
  "row_innerHTML markup = the (Option.bind markup read_row)"

subsection \<open>Table and dropdowns\<close>

definition populatePartyTable :: "client \<Rightarrow> client" where
  "populatePartyTable st = st\<lparr>party_tbody :=
     map (\<lambda>party. row_innerHTML (row_template party)) (parties st)\<rparr>"

definition populateDropdowns :: "client \<Rightarrow> client" where
  "populateDropdowns st =
    (let partyOptions = concat (map (\<lambda>p. option_element (name p) (name p))
                                  (filter (\<lambda>p. seats p > 0) (parties st))) in
     st\<lparr>exclude_party1 :=
          select_innerHTML (option_element [] ''Select party'' @ partyOptions),
        exclude_party2 :=
          select_innerHTML (option_element [] ''Select party (optional)'' @ partyOptions),
        include_party1 :=
          select_innerHTML (option_element [] ''Select party'' @ partyOptions),
        include_party2 :=
          select_innerHTML (option_element [] ''Select party'' @ partyOptions)\<rparr>)"

definition selectedParties :: "client \<Rightarrow> string list" where
  \<comment> \<open>\<^verbatim>\<open>querySelectorAll('.party-checkbox:checked')\<close> mapped to \<^verbatim>\<open>dataset.party\<close>\<close>
  "selectedParties st = map checkbox_party (filter checked (party_tbody st))"

subsection \<open>The spectrum map\<close>

text \<open>The two coordinate conversions, with the rounding of each operation as a
  parameter: the script runs them with \<open>binary64\<close>.\<close>

definition usable :: "(real \<Rightarrow> real) \<Rightarrow> real \<Rightarrow> real \<Rightarrow> real" where
  \<comment> \<open>\<^verbatim>\<open>containerWidth - (padding * 2)\<close>\<close>
  "usable rnd extent padding = rnd (extent - rnd (padding * 2))"

definition pixelX :: "(real \<Rightarrow> real) \<Rightarrow> real \<Rightarrow> real \<Rightarrow> real \<Rightarrow> real" where
  \<comment> \<open>\<^verbatim>\<open>padding + ((party.economic + 1) / 2) * usableWidth\<close>\<close>
  "pixelX rnd padding usableWidth e =
     rnd (padding + rnd (rnd (rnd (e + 1) / 2) * usableWidth))"

definition pixelY :: "(real \<Rightarrow> real) \<Rightarrow> real \<Rightarrow> real \<Rightarrow> real \<Rightarrow> real" where
  \<comment> \<open>\<^verbatim>\<open>padding + ((-party.social + 1) / 2) * usableHeight\<close>\<close>
  "pixelY rnd padding usableHeight s =
     rnd (padding + rnd (rnd (rnd (- s + 1) / 2) * usableHeight))"

definition constrain :: "(real \<Rightarrow> real) \<Rightarrow> real \<Rightarrow> real \<Rightarrow> real \<Rightarrow> real" where
  \<comment> \<open>\<^verbatim>\<open>Math.max(padding, Math.min(containerRect.width - padding, mouseX))\<close>\<close>
  "constrain rnd padding extent mouse = max padding (min (rnd (extent - padding)) mouse)"

definition toEconomic :: "(real \<Rightarrow> real) \<Rightarrow> real \<Rightarrow> real \<Rightarrow> real \<Rightarrow> real" where
  \<comment> \<open>\<^verbatim>\<open>((constrainedX - padding) / usableWidth) * 2 - 1\<close>\<close>
  "toEconomic rnd padding usableWidth constrainedX =
     rnd (rnd (rnd (rnd (constrainedX - padding) / usableWidth) * 2) - 1)"

definition toSocial :: "(real \<Rightarrow> real) \<Rightarrow> real \<Rightarrow> real \<Rightarrow> real \<Rightarrow> real" where
  \<comment> \<open>\<^verbatim>\<open>-(((constrainedY - padding) / usableHeight) * 2 - 1)\<close>\<close>
  "toSocial rnd padding usableHeight constrainedY =
     - rnd (rnd (rnd (rnd (constrainedY - padding) / usableHeight) * 2) - 1)"

definition updateSpectrum :: "client \<Rightarrow> client" where
  "updateSpectrum st =
    (let fallback = (offsetWidth st = 0 \<or> offsetHeight st = 0);
         containerWidth = (if fallback then 400 else offsetWidth st);
         containerHeight = (if fallback then 400 else offsetHeight st);
         padding = 50;
         selected = selectedParties st;
         usableWidth = usable binary64 containerWidth padding;
         usableHeight = usable binary64 containerHeight padding
     in st\<lparr>spectrum :=
          map (\<lambda>party. \<lparr>data_party = name party,
                          style_left = pixelX binary64 padding usableWidth (economic party),
                          style_top = pixelY binary64 padding usableHeight (social party),
                          is_selected = (name party \<in> set selected)\<rparr>)
              (filter (\<lambda>party. seats party \<noteq> 0) (parties st))\<rparr>)"

subsection \<open>Selection summary\<close>

definition coalitionSeats :: "client \<Rightarrow> int" where
  \<comment> \<open>\<^verbatim>\<open>parties.filter(p => selectedParties.includes(p.name)).reduce((sum, p) => sum + p.seats, 0)\<close>\<close>
  "coalitionSeats st =
     foldl (\<lambda>sum p. plus64 sum (seats p)) 0
       (filter (\<lambda>p. name p \<in> set (selectedParties st)) (parties st))"

text \<open>\<^verbatim>\<open>updateVisualization\<close>, without its repainting of the chart and of the table
  rows.\<close>

definition updateVisualization :: "client \<Rightarrow> client" where
  "updateVisualization st =
    (let s = coalitionSeats st in
     updateSpectrum (st\<lparr>coalition_info :=
        (if s \<ge> 76 then Majority s else MoreNeeded s (minus64 76 s))\<rparr>))"

definition toggle :: "nat \<Rightarrow> client \<Rightarrow> client" where
  \<comment> \<open>a click on the checkbox of row \<open>i\<close>: the box flips and \<^verbatim>\<open>onchange\<close> runs\<close>
  "toggle i st =
    (if i < length (party_tbody st)
     then updateVisualization (st\<lparr>party_tbody :=
            (party_tbody st)[i := (party_tbody st ! i)\<lparr>checked := \<not> checked (party_tbody st ! i)\<rparr>]\<rparr>)
     else st)"

subsection \<open>Coalition queries\<close>

definition js_gt :: "int option \<Rightarrow> int option \<Rightarrow> bool" where
  \<comment> \<open>\<^verbatim>\<open>a > b\<close>: false when either side is \<^verbatim>\<open>NaN\<close>\<close>
  "js_gt a b = (case (a, b) of (Some x, Some y) \<Rightarrow> x > y | _ \<Rightarrow> False)"

definition updateCoalitions :: "client \<Rightarrow> client" where
  "updateCoalitions st =
    (let minParties = min_parties st; maxParties = max_parties st in
     if js_gt minParties maxParties
     then (alert ''Minimum parties cannot be greater than maximum parties'' st)
            \<lparr>min_parties := maxParties\<rparr>
     else fetch (Coalitions minParties maxParties (exclusions st) (inclusions st)) st)"

subsection \<open>Constraints\<close>

fun join_dash :: "string list \<Rightarrow> string" where
  \<comment> \<open>\<^verbatim>\<open>Array.prototype.join('-')\<close>\<close>
  "join_dash [] = ''''"
| "join_dash [x] = x"
| "join_dash (x # y # ys) = x @ ''-'' @ join_dash (y # ys)"

text \<open>
  \<^verbatim>\<open>[party1, party2].sort()\<close> is the default sort, which orders strings by their code
  units; it is modelled by \<open>sort\<close> on the lexicographic order of character lists.
\<close>

definition clearSelection :: "dropdown \<Rightarrow> dropdown" where
  \<comment> \<open>\<^verbatim>\<open>element.value = ''\<close>\<close>
  "clearSelection d = d\<lparr>selected_value := ''''\<rparr>"

definition addExclusion :: "client \<Rightarrow> add_result \<times> client" where
  "addExclusion st =
    (let party1 = selected_value (exclude_party1 st);
         party2 = selected_value (exclude_party2 st) in
     if party1 = '''' then (Rejected, alert ''Please select at least one party'' st)
     else if party2 \<noteq> '''' \<and> party1 = party2
       then (Rejected, alert ''Please select two different parties'' st)
     else
       let exclusion = (if party2 = '''' then [party1] else sort [party1, party2]);
           exclusionStr = join_dash exclusion in
       if list_ex (\<lambda>e. join_dash e = exclusionStr) (exclusions st)
         then (Rejected, alert ''This exclusion already exists'' st)
       else if list_ex (\<lambda>i. join_dash i = exclusionStr) (inclusions st)
         then (Rejected, alert ''These parties are already set as inclusions'' st)
       else (Added,
         (updateCoalitions (st\<lparr>exclusions := exclusions st @ [exclusion]\<rparr>))
           \<lparr>exclude_party1 := clearSelection (exclude_party1 st),
            exclude_party2 := clearSelection (exclude_party2 st)\<rparr>))"

definition addInclusion :: "client \<Rightarrow> add_result \<times> client" where
  "addInclusion st =
    (let party1 = selected_value (include_party1 st);
         party2 = selected_value (include_party2 st) in
     if party1 = '''' \<or> party2 = '''' then (Rejected, alert ''Please select two parties'' st)
     else if party1 = party2
       then (Rejected, alert ''Please select two different parties'' st)
     else
       let inclusion = sort [party1, party2];
           inclusionStr = join_dash inclusion in
       if list_ex (\<lambda>i. join_dash i = inclusionStr) (inclusions st)
         then (Rejected, alert ''This inclusion already exists'' st)
       else if list_ex (\<lambda>e. join_dash e = inclusionStr) (exclusions st)
         then (Rejected, alert ''These parties are already set as exclusions'' st)
       else (Added,
         (updateCoalitions (st\<lparr>inclusions := inclusions st @ [inclusion]\<rparr>))
           \<lparr>include_party1 := clearSelection (include_party1 st),
            include_party2 := clearSelection (include_party2 st)\<rparr>))"

definition splice1 :: "int \<Rightarrow> 'a list \<Rightarrow> 'a list" where
  \<comment> \<open>\<^verbatim>\<open>xs.splice(index, 1)\<close>: a negative index counts from the end, an index past
      the end removes nothing\<close>
  "splice1 index xs =
    (let len = int (length xs);
         start = (if index < 0 then max (len + index) 0 else min index len)
     in take (nat start) xs @ drop (nat start + 1) xs)"

definition removeExclusion :: "int \<Rightarrow> client \<Rightarrow> client" where
  "removeExclusion index st = updateCoalitions (st\<lparr>exclusions := splice1 index (exclusions st)\<rparr>)"

definition removeInclusion :: "int \<Rightarrow> client \<Rightarrow> client" where
  "removeInclusion index st = updateCoalitions (st\<lparr>inclusions := splice1 index (inclusions st)\<rparr>)"

text \<open>The user's actions on the constraint panel: choosing values in the two dropdowns
  of a kind and pressing its button, or pressing the remove button of an entry.\<close>

datatype action =
    AddExclusion string string
  | AddInclusion string string
  | RemoveExclusion int
  | RemoveInclusion int

fun step :: "client \<Rightarrow> action \<Rightarrow> client" where
  "step st (AddExclusion p1 p2) =
     snd (addExclusion (st\<lparr>exclude_party1 := (exclude_party1 st)\<lparr>selected_value := p1\<rparr>,
                            exclude_party2 := (exclude_party2 st)\<lparr>selected_value := p2\<rparr>\<rparr>))"
| "step st (AddInclusion p1 p2) =
     snd (addInclusion (st\<lparr>include_party1 := (include_party1 st)\<lparr>selected_value := p1\<rparr>,
                            include_party2 := (include_party2 st)\<lparr>selected_value := p2\<rparr>\<rparr>))"
| "step st (RemoveExclusion i) = removeExclusion i st"
| "step st (RemoveInclusion i) = removeInclusion i st"

definition run :: "client \<Rightarrow> action list \<Rightarrow> client" where
  "run st acts = foldl step st acts"

subsection \<open>Dataset switch and drag release\<close>

text \<open>The alert of \<^verbatim>\<open>changePoll\<close> is logged without the exception's message.\<close>

definition changePoll :: "poll_data fetched \<Rightarrow> client \<Rightarrow> client" where
  "changePoll response st =
    (let selectedPoll = poll_dropdown st in
     if selectedPoll = '''' then st
     else
       let st1 = fetch (ChangePoll selectedPoll) st in
       case response of
         Failed \<Rightarrow> alert ''Failed to change poll'' st1
       | Reply data \<Rightarrow>
           if data_success data
           then updateSpectrum (updateCoalitions (populateDropdowns (populatePartyTable
                  (st1\<lparr>parties := data_parties data,
                       total_seats_shown := data_total_seats data\<rparr>))))
           else st1)"

definition startDrag :: "party \<Rightarrow> rect \<Rightarrow> client \<Rightarrow> client" where
  \<comment> \<open>the rectangle is what \<^verbatim>\<open>getBoundingClientRect()\<close> gives at that moment\<close>
  "startDrag party r st =
     st\<lparr>dragState := \<lparr>isDragging = True, dragParty = Some party, containerRect = Some r\<rparr>\<rparr>"

definition releasePosition :: "rect \<Rightarrow> real \<Rightarrow> real \<Rightarrow> real \<times> real" where
  \<comment> \<open>the \<^verbatim>\<open>economic\<close> and \<^verbatim>\<open>social\<close> that \<^verbatim>\<open>handleMouseUp\<close> computes\<close>
  "releasePosition r clientX clientY =
    (let padding = 50;
         mouseX = binary64 (clientX - rect_left r);
         mouseY = binary64 (clientY - rect_top r);
         constrainedX = constrain binary64 padding (rect_width r) mouseX;
         constrainedY = constrain binary64 padding (rect_height r) mouseY;
         usableWidth = usable binary64 (rect_width r) padding;
         usableHeight = usable binary64 (rect_height r) padding
     in (toEconomic binary64 padding usableWidth constrainedX,
         toSocial binary64 padding usableHeight constrainedY))"

text \<open>
  \<^verbatim>\<open>handleMouseUp\<close> returns at once unless a party is being dragged. (A drag state
  with a party and no rectangle, which \<^verbatim>\<open>startDrag\<close> never produces, would make the
  script throw before it sends anything; the model leaves the state as it is.)
\<close>

definition handleMouseUp :: "real \<Rightarrow> real \<Rightarrow> position_data fetched \<Rightarrow> client \<Rightarrow> client" where
  "handleMouseUp clientX clientY response st =
    (case (isDragging (dragState st), dragParty (dragState st), containerRect (dragState st)) of
       (True, Some party, Some r) \<Rightarrow>
         let (e, s) = releasePosition r clientX clientY;
             st1 = fetch (UpdatePosition (name party) e s) st;
             st2 = (case response of
                      Failed \<Rightarrow> st1
                    | Reply data \<Rightarrow>
                        if data_success data
                        then updateCoalitions (updateSpectrum (st1\<lparr>parties := data_parties data\<rparr>))
                        else st1)
         in st2\<lparr>dragState := \<lparr>isDragging = False, dragParty = None, containerRect = None\<rparr>\<rparr>
     | _ \<Rightarrow> st)"

text \<open>The page as the script's first lines leave it. The values of the two number
  inputs come from the page's markup, which is not part of the script: 1 and 5 stand for
  them.\<close>

definition no_dropdown :: dropdown where
  "no_dropdown = \<lparr>options = [], selected_value = ''''\<rparr>"

definition initial :: client where
  "initial = \<lparr>parties = [], exclusions = [], inclusions = [],
     dragState = \<lparr>isDragging = False, dragParty = None, containerRect = None\<rparr>,
     party_tbody = [],
     exclude_party1 = no_dropdown, exclude_party2 = no_dropdown,
     include_party1 = no_dropdown, include_party2 = no_dropdown,
     min_parties = Some 1, max_parties = Some 5, poll_dropdown = '''',
     total_seats_shown = 0, coalition_info = NoInfo,
     offsetWidth = 0, offsetHeight = 0, spectrum = [],
     alerts = [], requests = []\<rparr>"

subsection \<open>Reading the page, and example pages\<close>

definition info_seats :: "coalition_info \<Rightarrow> int option" where
  \<comment> \<open>the number printed after "Coalition seats:"\<close>
  "info_seats i = (case i of NoInfo \<Rightarrow> None | Majority s \<Rightarrow> Some s | MoreNeeded s n \<Rightarrow> Some s)"

definition is_majority :: "coalition_info \<Rightarrow> bool" where
  \<comment> \<open>whether the text says "Majority"\<close>
  "is_majority i = (case i of Majority s \<Rightarrow> True | _ \<Rightarrow> False)"

definition mk_party :: "string \<Rightarrow> int \<Rightarrow> party" where
  "mk_party n s = \<lparr>name = n, seats = s, economic = 0, social = 0\<rparr>"

definition loaded :: "party list \<Rightarrow> int \<Rightarrow> client" where
  \<comment> \<open>the page after a switch to a poll with the given roster and total\<close>
  "loaded ps chamber = changePoll
     (Reply \<lparr>data_success = True, data_parties = ps, data_total_seats = chamber\<rparr>)
     (initial\<lparr>poll_dropdown := ''poll''\<rparr>)"

definition poll100 :: client where
  \<comment> \<open>a 100-seat poll, the box of party A ticked\<close>
  "poll100 = toggle 0 (loaded [mk_party ''A'' 60, mk_party ''B'' 40] 100)"

definition poll150 :: client where
  \<comment> \<open>a 150-seat poll, the box of party A ticked\<close>
  "poll150 = toggle 0 (loaded [mk_party ''A'' 80, mk_party ''B'' 70] 150)"

definition two_ticked :: client where
  \<comment> \<open>three parties, the boxes of A and B ticked\<close>
  "two_ticked = toggle 1 (toggle 0
     (loaded [mk_party ''A'' 60, mk_party ''B'' 40, mk_party ''C'' 50] 150))"

definition huge :: client where
  \<comment> \<open>seat numbers \<open>2^53\<close> and 1, both boxes ticked\<close>
  "huge = toggle 1 (toggle 0
     (loaded [mk_party ''A'' 9007199254740992, mk_party ''B'' 1] 9007199254740993))"

definition pick :: "string \<Rightarrow> string \<Rightarrow> string \<Rightarrow> string \<Rightarrow> client \<Rightarrow> client" where
  \<comment> \<open>the user picks values in the four constraint dropdowns\<close>
  "pick e1 e2 i1 i2 st =
     st\<lparr>exclude_party1 := (exclude_party1 st)\<lparr>selected_value := e1\<rparr>,
        exclude_party2 := (exclude_party2 st)\<lparr>selected_value := e2\<rparr>,
        include_party1 := (include_party1 st)\<lparr>selected_value := i1\<rparr>,
        include_party2 := (include_party2 st)\<lparr>selected_value := i2\<rparr>\<rparr>"

definition ab_excluded :: client where
  \<comment> \<open>A and B are excluded from governing together, and both are chosen again in
      either panel\<close>
  "ab_excluded = pick ''A'' ''B'' ''B'' ''A'' (run initial [AddExclusion ''B'' ''A''])"

definition some_actions :: "action list" where
  "some_actions = [AddExclusion ''B'' ''A'', AddInclusion ''D'' ''C'', AddExclusion ''E'' '''',
     AddExclusion ''A'' ''B'', AddInclusion ''C'' ''C'', RemoveExclusion 7]"

abbreviation canonical :: "client \<Rightarrow> bool" where
  "canonical st \<equiv>
     (\<forall>e\<in>set (exclusions st). (length e = 1 \<or> length e = 2) \<and> distinct e \<and> sorted e)
     \<and> (\<forall>i\<in>set (inclusions st). length i = 2 \<and> distinct i \<and> sorted i)"

definition is_query :: "request \<Rightarrow> bool" where
  \<comment> \<open>a request to \<^verbatim>\<open>/api/coalitions\<close>\<close>
  "is_query r = (case r of Coalitions a b ex inc \<Rightarrow> True | _ \<Rightarrow> False)"

definition square400 :: rect where
  "square400 = \<lparr>rect_left = 0, rect_top = 0, rect_width = 400, rect_height = 400\<rparr>"

definition dragging_min3_max2 :: client where
  \<comment> \<open>party A is being dragged while the inputs read minimum 3, maximum 2\<close>
  "dragging_min3_max2 = startDrag (mk_party ''A'' 60) square400
     ((loaded [mk_party ''A'' 60, mk_party ''B'' 40] 100)\<lparr>min_parties := Some 3, max_parties := Some 2\<rparr>)"

definition dragging :: client where
  \<comment> \<open>party A is being dragged, the inputs read minimum 1, maximum 5\<close>
  "dragging = startDrag (mk_party ''A'' 60) square400
     (loaded [mk_party ''A'' 60, mk_party ''B'' 40] 100)"

definition moved :: position_data where
  \<comment> \<open>the server's answer: party A is now at economic 1/2\<close>
  "moved = \<lparr>data_success = True,
     data_parties = [\<lparr>name = ''A'', seats = 60, economic = 1/2, social = 0\<rparr>, mk_party ''B'' 40]\<rparr>"

definition with_zero :: client where
  \<comment> \<open>a roster with a party Z of no seats\<close>
  "with_zero = loaded [mk_party ''A'' 60, mk_party ''Z'' 0] 60"

definition injected_roster :: "party list" where
  \<comment> \<open>a party of 5 seats whose name is \<^verbatim>\<open>Z">Z</option><option value="Z">\<close>, and a
      party Z of no seats\<close>
  "injected_roster =
     [\<lparr>name = ''Z'' @ [CHR 0x22] @ ''>Z</option><option value='' @ quoted ''Z'' @ ''>'',
       seats = 5, economic = 0, social = 0\<rparr>,
      mk_party ''Z'' 0]"

definition injected :: client where
  "injected = initial\<lparr>parties := injected_roster\<rparr>"

definition gl_merged :: client where
  \<comment> \<open>GL and PvdA were excluded from governing together in an older poll; the poll now
      shown has the merged list GL-PvdA, which the user picks for a single-party ban\<close>
  "gl_merged = pick ''GL-PvdA'' '''' '''' ''''
     (changePoll
        (Reply \<lparr>data_success = True,
                data_parties = [mk_party ''GL-PvdA'' 25, mk_party ''VVD'' 24],
                data_total_seats = 150\<rparr>)
        (step (loaded [mk_party ''GL'' 8, mk_party ''PvdA'' 9, mk_party ''VVD'' 34] 150)
           (AddExclusion ''GL'' ''PvdA'')))"

definition switched :: poll_data where
  \<comment> \<open>the server's answer to a dataset switch\<close>
  "switched = \<lparr>data_success = True, data_parties = [mk_party ''A'' 80, mk_party ''B'' 70],
     data_total_seats = 150\<rparr>"

definition tenth :: real where
  \<comment> \<open>the binary64 value that the literal \<^verbatim>\<open>0.1\<close> denotes\<close>
  "tenth = 3602879701896397 / 36028797018963968"

definition page400 :: client where
  \<comment> \<open>a roster with one party, at economic 0.1, shown in a container of 400 by 400\<close>
  "page400 = (loaded [\<lparr>name = ''A'', seats = 60, economic = tenth, social = 0\<rparr>] 60)
     \<lparr>offsetWidth := 400, offsetHeight := 400\<rparr>"

definition dash_free :: "string \<Rightarrow> bool" where
  \<comment> \<open>a name without the separator of \<open>join_dash\<close>\<close>
  "dash_free n = (CHR ''-'' \<notin> set n)"

definition wide :: rect where
  \<comment> \<open>a container \<open>2^55\<close> pixels wide\<close>
  "wide = \<lparr>rect_left = 0, rect_top = 0, rect_width = 36028797018963968, rect_height = 400\<rparr>"

section \<open>Properties\<close>

subsection \<open>Reading back the markup\<close>

declare digits.simps [simp del]

lemmas plain_defs = html_plain_def text_plain_def attr_plain_def

lemma literal_append [simp]: "literal l (l @ s) = Some s"
  by (induction l) simp_all

lemma value_until_quote [simp]:
  assumes "html_plain t"
  shows "value_until (t @ CHR 0x22 # s) = Some (t, CHR 0x22 # s)"
proof -
  have no: "CHR 0x22 \<notin> set t" and ok: "attr_plain t"
    using assms by (auto simp: html_plain_def attr_plain_def list_all_iff)
  have 1: "takeWhile (\<lambda>c. c \<noteq> CHR 0x22) (t @ CHR 0x22 # s) = t"
    using no by (subst takeWhile_append2) auto
  have 2: "dropWhile (\<lambda>c. c \<noteq> CHR 0x22) (t @ CHR 0x22 # s) = CHR 0x22 # s"
    using no by (subst dropWhile_append2) auto
  show ?thesis unfolding value_until_def Let_def 1 2 using ok by simp
qed

lemma text_until_tag [simp]:
  assumes "html_plain t"
  shows "text_until (t @ CHR ''<'' # s) = Some (t, CHR ''<'' # s)"
proof -
  have no: "CHR ''<'' \<notin> set t" and ok: "text_plain t"
    using assms by (auto simp: html_plain_def text_plain_def list_all_iff)
  have 1: "takeWhile (\<lambda>c. c \<noteq> CHR ''<'') (t @ CHR ''<'' # s) = t"
    using no by (subst takeWhile_append2) auto
  have 2: "dropWhile (\<lambda>c. c \<noteq> CHR ''<'') (t @ CHR ''<'' # s) = CHR ''<'' # s"
    using no by (subst dropWhile_append2) auto
  show ?thesis unfolding text_until_def Let_def 1 2 using ok by simp
qed

lemma read_option_element:
  assumes "html_plain v" and "html_plain t"
  shows "read_option (option_element v t @ rest) = Some ((v, t), rest)"
proof -
  have "option_element v t @ rest =
      ''<option value='' @ ([CHR 0x22] @ (v @ CHR 0x22 # (''>'' @ (t @ CHR ''<'' # ''/option>'' @ rest))))"
    by (simp add: option_element_def quoted_def)
  then show ?thesis
    unfolding read_option_def
    by (simp only: literal_append option.case value_until_quote [OF assms(1)] prod.case)
       (simp add: assms(2))
qed

lemma option_element_nonempty [simp]: "option_element v t \<noteq> []"
  by (simp add: option_element_def)

lemma read_options_elements:
  assumes "list_all (\<lambda>(v, t). html_plain v \<and> html_plain t) vts" and "length vts \<le> n"
  shows "read_options n (concat (map (\<lambda>(v, t). option_element v t) vts)) = Some vts"
  using assms
proof (induction vts arbitrary: n)
  case Nil
  then show ?case by (cases n) simp_all
next
  case (Cons vt vts)
  obtain v t where vt: "vt = (v, t)" by (cases vt)
  obtain m where n: "n = Suc m" using Cons.prems(2) by (cases n) simp_all
  have plain: "html_plain v" "html_plain t" using Cons.prems(1) vt by simp_all
  have IH: "read_options m (concat (map (\<lambda>(v, t). option_element v t) vts)) = Some vts"
    using Cons.prems n by (intro Cons.IH) simp_all
  show ?case
    by (simp add: vt n read_option_element [OF plain] IH)
qed

lemma options_fuel:
  "length vts \<le> length (concat (map (\<lambda>(v, t). option_element v t) vts))"
proof (induction vts)
  case Nil
  then show ?case by simp
next
  case (Cons vt vts)
  have "1 \<le> length (case vt of (v, t) \<Rightarrow> option_element v t)"
    by (cases vt) (simp add: option_element_def)
  then show ?case using Cons by simp
qed

lemma select_innerHTML_elements:
  assumes "list_all (\<lambda>(v, t). html_plain v \<and> html_plain t) vts"
  shows "options (select_innerHTML (concat (map (\<lambda>(v, t). option_element v t) vts))) = vts"
    and "selected_value (select_innerHTML (concat (map (\<lambda>(v, t). option_element v t) vts)))
           = (case vts of [] \<Rightarrow> [] | (v, t) # others \<Rightarrow> v)"
  using read_options_elements [OF assms options_fuel]
  by (simp_all add: select_innerHTML_def Let_def)

lemma digit_plain: "k < 10 \<Longrightarrow> html_plain [''0123456789'' ! k]"
proof -
  assume "k < 10"
  then have "k \<in> {0, 1, 2, 3, 4, 5, 6, 7, 8, 9}" by auto
  then show ?thesis by (auto simp: html_plain_def text_plain_def attr_plain_def)
qed

lemma html_plain_Nil [simp]: "html_plain []"
  by (simp add: html_plain_def text_plain_def attr_plain_def)

lemma html_plain_append [simp]: "html_plain (a @ b) \<longleftrightarrow> html_plain a \<and> html_plain b"
  by (auto simp: html_plain_def text_plain_def attr_plain_def)

lemma digits_plain: "html_plain (digits n)"
proof (induction n rule: digits.induct)
  case (1 n)
  show ?case
  proof (cases "n < 10")
    case True
    then show ?thesis by (subst digits.simps) (simp add: digit_plain)
  next
    case False
    then have "html_plain (digits (n div 10))" by (rule 1)
    moreover have "html_plain [''0123456789'' ! (n mod 10)]" by (rule digit_plain) simp
    ultimately show ?thesis using False by (subst digits.simps) simp
  qed
qed

lemma number_text_plain:
  assumes "number_text n = Some k"
  shows "html_plain k"
proof -
  have minus: "html_plain ''-''" by (simp add: html_plain_def text_plain_def attr_plain_def)
  have "k = (if n < 0 then ''-'' else []) @ digits (nat \<bar>n\<bar>)"
    using assms by (simp add: number_text_def split: if_splits)
  then show ?thesis
    using minus digits_plain [of "nat \<bar>n\<bar>"] by simp
qed

lemma literal_self [simp]: "literal l l = Some []"
  using literal_append [of l "[]"] by simp

lemma row_innerHTML_template:
  assumes "html_plain (name p)" and "number_text (seats p) = Some k"
  shows "row_innerHTML (row_template p) =
     \<lparr>row_name = name p, row_seats = k, checkbox_party = name p, checked = False\<rparr>"
proof -
  have k: "html_plain k" using assms(2) by (rule number_text_plain)
  define lit1 where "lit1 = line 12 @ ''<td>''"
  define lit2 where "lit2 = ''</td>'' @ line 12 @ ''<td>''"
  define lit3 where "lit3 = ''</td>'' @ line 12 @ ''<td><input type='' @ quoted ''checkbox''
            @ '' class='' @ quoted ''party-checkbox'' @ '' data-party='' @ [CHR 0x22]"
  define lit4 where "lit4 = [CHR 0x22] @ '' onchange='' @ quoted ''updateVisualization()''
            @ ''></td>'' @ line 8"
  have c2: "CHR ''<'' # tl lit2 @ X = lit2 @ X" for X by (simp add: lit2_def)
  have c3: "CHR ''<'' # tl lit3 @ X = lit3 @ X" for X by (simp add: lit3_def)
  have c4: "CHR 0x22 # tl lit4 = lit4" by (simp add: lit4_def)
  have l2: "literal lit2 (CHR ''<'' # tl lit2 @ X) = Some X" for X
    by (simp only: c2 literal_append)
  have l3: "literal lit3 (CHR ''<'' # tl lit3 @ X) = Some X" for X
    by (simp only: c3 literal_append)
  have l4: "literal lit4 (CHR 0x22 # tl lit4) = Some []"
    by (simp only: c4 literal_self)
  have m: "row_template p = Some (lit1 @ (name p @ CHR ''<'' # tl lit2 @
        (k @ CHR ''<'' # tl lit3 @ (name p @ CHR 0x22 # tl lit4))))"
    by (simp add: row_template_def assms(2) lit1_def lit2_def lit3_def lit4_def quoted_def)
  have "read_row (lit1 @ (name p @ CHR ''<'' # tl lit2 @
        (k @ CHR ''<'' # tl lit3 @ (name p @ CHR 0x22 # tl lit4))))
      = Some \<lparr>row_name = name p, row_seats = k, checkbox_party = name p, checked = False\<rparr>"
    unfolding read_row_def
    unfolding lit2_def [symmetric] lit3_def [symmetric] lit4_def [symmetric]
    unfolding lit1_def [symmetric]
    by (simp only: literal_append l2 l3 l4 option.case prod.case if_True
          text_until_tag [OF assms(1)] text_until_tag [OF k] value_until_quote [OF assms(1)])
       simp
  then show ?thesis by (simp add: row_innerHTML_def m)
qed

lemma populatePartyTable_rows:
  assumes "list_all (\<lambda>p. html_plain (name p) \<and> \<bar>seats p\<bar> < 10 ^ 21) (parties st)"
  shows "party_tbody (populatePartyTable st) =
     map (\<lambda>party. \<lparr>row_name = name party, row_seats = the (number_text (seats party)),
                     checkbox_party = name party, checked = False\<rparr>) (parties st)"
proof -
  have "row_innerHTML (row_template p) =
      \<lparr>row_name = name p, row_seats = the (number_text (seats p)),
        checkbox_party = name p, checked = False\<rparr>"
    if "p \<in> set (parties st)" for p
  proof -
    have "html_plain (name p)" "\<bar>seats p\<bar> < 10 ^ 21"
      using assms that by (simp_all add: list_all_iff)
    then show ?thesis
      by (intro row_innerHTML_template) (simp_all add: number_text_def)
  qed
  then show ?thesis by (simp add: populatePartyTable_def)
qed

lemma populateDropdowns_options:
  assumes "list_all html_plain (map name (filter (\<lambda>p. seats p > 0) (parties st)))"
  shows "options (exclude_party1 (populateDropdowns st)) =
           ([], ''Select party'')
             # map (\<lambda>p. (name p, name p)) (filter (\<lambda>p. seats p > 0) (parties st))"
    and "options (exclude_party2 (populateDropdowns st)) =
           ([], ''Select party (optional)'')
             # map (\<lambda>p. (name p, name p)) (filter (\<lambda>p. seats p > 0) (parties st))"
    and "options (include_party1 (populateDropdowns st)) =
           ([], ''Select party'')
             # map (\<lambda>p. (name p, name p)) (filter (\<lambda>p. seats p > 0) (parties st))"
    and "options (include_party2 (populateDropdowns st)) =
           ([], ''Select party'')
             # map (\<lambda>p. (name p, name p)) (filter (\<lambda>p. seats p > 0) (parties st))"
    and "selected_value (exclude_party1 (populateDropdowns st)) = []"
    and "selected_value (exclude_party2 (populateDropdowns st)) = []"
    and "selected_value (include_party1 (populateDropdowns st)) = []"
    and "selected_value (include_party2 (populateDropdowns st)) = []"
proof -
  let ?seated = "filter (\<lambda>p. seats p > 0) (parties st)"
  let ?vts = "\<lambda>label. ([], label) # map (\<lambda>p. (name p, name p)) ?seated"
  have markup: "option_element [] label
        @ concat (map (\<lambda>p. option_element (name p) (name p)) ?seated)
      = concat (map (\<lambda>(v, t). option_element v t) (?vts label))" for label
    by (simp add: comp_def)
  have plain: "list_all (\<lambda>(v, t). html_plain v \<and> html_plain t) (?vts label)"
    if "html_plain label" for label
    using assms that by (simp add: list_all_iff)
  have labels: "html_plain ''Select party''" "html_plain ''Select party (optional)''"
    by (simp_all add: plain_defs)
  show "options (exclude_party1 (populateDropdowns st)) = ?vts ''Select party''"
    "options (exclude_party2 (populateDropdowns st)) = ?vts ''Select party (optional)''"
    "options (include_party1 (populateDropdowns st)) = ?vts ''Select party''"
    "options (include_party2 (populateDropdowns st)) = ?vts ''Select party''"
    "selected_value (exclude_party1 (populateDropdowns st)) = []"
    "selected_value (exclude_party2 (populateDropdowns st)) = []"
    "selected_value (include_party1 (populateDropdowns st)) = []"
    "selected_value (include_party2 (populateDropdowns st)) = []"
    unfolding populateDropdowns_def Let_def markup
    using select_innerHTML_elements [OF plain [OF labels(1)]]
          select_innerHTML_elements [OF plain [OF labels(2)]]
    by simp_all
qed

subsection \<open>What each function leaves alone\<close>

lemma updateSpectrum_fields [simp]:
  "parties (updateSpectrum st) = parties st"
  "exclusions (updateSpectrum st) = exclusions st"
  "inclusions (updateSpectrum st) = inclusions st"
  "dragState (updateSpectrum st) = dragState st"
  "party_tbody (updateSpectrum st) = party_tbody st"
  "min_parties (updateSpectrum st) = min_parties st"
  "max_parties (updateSpectrum st) = max_parties st"
  "total_seats_shown (updateSpectrum st) = total_seats_shown st"
  "coalition_info (updateSpectrum st) = coalition_info st"
  "alerts (updateSpectrum st) = alerts st"
  "requests (updateSpectrum st) = requests st"
  by (simp_all add: updateSpectrum_def Let_def)

lemma selectedParties_updateSpectrum [simp]:
  "selectedParties (updateSpectrum st) = selectedParties st"
  by (simp add: selectedParties_def)

lemma coalitionSeats_updateSpectrum [simp]:
  "coalitionSeats (updateSpectrum st) = coalitionSeats st"
  by (simp add: coalitionSeats_def)

lemma updateCoalitions_fields [simp]:
  "parties (updateCoalitions st) = parties st"
  "exclusions (updateCoalitions st) = exclusions st"
  "inclusions (updateCoalitions st) = inclusions st"
  "dragState (updateCoalitions st) = dragState st"
  "party_tbody (updateCoalitions st) = party_tbody st"
  "max_parties (updateCoalitions st) = max_parties st"
  "total_seats_shown (updateCoalitions st) = total_seats_shown st"
  "coalition_info (updateCoalitions st) = coalition_info st"
  "exclude_party1 (updateCoalitions st) = exclude_party1 st"
  "exclude_party2 (updateCoalitions st) = exclude_party2 st"
  "include_party1 (updateCoalitions st) = include_party1 st"
  "include_party2 (updateCoalitions st) = include_party2 st"
  by (simp_all add: updateCoalitions_def alert_def fetch_def Let_def)

lemma updateCoalitions_sends:
  "\<not> js_gt (min_parties st) (max_parties st) \<Longrightarrow>
     requests (updateCoalitions st) =
       requests st @ [Coalitions (min_parties st) (max_parties st) (exclusions st) (inclusions st)]
     \<and> alerts (updateCoalitions st) = alerts st
     \<and> min_parties (updateCoalitions st) = min_parties st"
  by (simp add: updateCoalitions_def fetch_def Let_def)

lemma updateCoalitions_clamps:
  "js_gt (min_parties st) (max_parties st) \<Longrightarrow>
     requests (updateCoalitions st) = requests st
     \<and> alerts (updateCoalitions st) =
         alerts st @ [''Minimum parties cannot be greater than maximum parties'']
     \<and> min_parties (updateCoalitions st) = max_parties st"
  by (simp add: updateCoalitions_def alert_def Let_def)

text \<open>An input that does not read as a number (\<^verbatim>\<open>NaN\<close>) is never greater than
  the other, so the request is sent, with \<^verbatim>\<open>null\<close> in its place.\<close>

lemma updateCoalitions_NaN:
  "min_parties st = None \<or> max_parties st = None \<Longrightarrow>
     requests (updateCoalitions st) =
       requests st @ [Coalitions (min_parties st) (max_parties st) (exclusions st) (inclusions st)]"
  by (rule updateCoalitions_sends [THEN conjunct1]) (auto simp: js_gt_def split: option.splits)

lemma populate_fields [simp]:
  "parties (populatePartyTable st) = parties st"
  "parties (populateDropdowns st) = parties st"
  "total_seats_shown (populatePartyTable st) = total_seats_shown st"
  "total_seats_shown (populateDropdowns st) = total_seats_shown st"
  "party_tbody (populateDropdowns st) = party_tbody st"
  "min_parties (populatePartyTable st) = min_parties st"
  "min_parties (populateDropdowns st) = min_parties st"
  "max_parties (populatePartyTable st) = max_parties st"
  "max_parties (populateDropdowns st) = max_parties st"
  "exclusions (populatePartyTable st) = exclusions st"
  "exclusions (populateDropdowns st) = exclusions st"
  "inclusions (populatePartyTable st) = inclusions st"
  "inclusions (populateDropdowns st) = inclusions st"
  "requests (populatePartyTable st) = requests st"
  "requests (populateDropdowns st) = requests st"
  "alerts (populatePartyTable st) = alerts st"
  "alerts (populateDropdowns st) = alerts st"
  by (simp_all add: populatePartyTable_def populateDropdowns_def Let_def)

lemma changePoll_success:
  "poll_dropdown st \<noteq> [] \<Longrightarrow> data_success d \<Longrightarrow>
   changePoll (Reply d) st =
     updateSpectrum (updateCoalitions (populateDropdowns (populatePartyTable
       ((fetch (ChangePoll (poll_dropdown st)) st)
          \<lparr>parties := data_parties d, total_seats_shown := data_total_seats d\<rparr>))))"
  by (simp add: changePoll_def Let_def)

lemma changePoll_lists [simp]:
  "exclusions (changePoll response st) = exclusions st"
  "inclusions (changePoll response st) = inclusions st"
  by (cases response; simp add: changePoll_def alert_def fetch_def Let_def)+

lemma changePoll_dropdown:
  assumes "poll_dropdown st \<noteq> []" and "data_success d"
      and "list_all html_plain (map name (filter (\<lambda>p. seats p > 0) (data_parties d)))"
  shows "options (exclude_party1 (changePoll (Reply d) st)) =
     ([], ''Select party'') # map (\<lambda>p. (name p, name p)) (filter (\<lambda>p. seats p > 0) (data_parties d))"
proof -
  let ?st = "populatePartyTable ((fetch (ChangePoll (poll_dropdown st)) st)
          \<lparr>parties := data_parties d, total_seats_shown := data_total_seats d\<rparr>)"
  have "exclude_party1 (changePoll (Reply d) st) = exclude_party1 (populateDropdowns ?st)"
    by (simp add: changePoll_success [OF assms(1,2)] updateSpectrum_def Let_def)
  moreover have "list_all html_plain (map name (filter (\<lambda>p. seats p > 0) (parties ?st)))"
    using assms(3) by simp
  ultimately show ?thesis
    by (simp only: populateDropdowns_options(1)) simp
qed

lemma info_updateVisualization:
  "coalition_info (updateVisualization st) =
     (if coalitionSeats st \<ge> 76 then Majority (coalitionSeats st)
      else MoreNeeded (coalitionSeats st) (minus64 76 (coalitionSeats st)))"
  by (simp add: updateVisualization_def Let_def)

lemma handleMouseUp_success:
  assumes "isDragging (dragState st)" and "dragParty (dragState st) = Some p"
      and "containerRect (dragState st) = Some r" and "data_success d"
  shows "handleMouseUp cx cy (Reply d) st =
     (updateCoalitions (updateSpectrum
        ((fetch (UpdatePosition (name p) (fst (releasePosition r cx cy))
                                         (snd (releasePosition r cx cy))) st)
           \<lparr>parties := data_parties d\<rparr>)))
       \<lparr>dragState := \<lparr>isDragging = False, dragParty = None, containerRect = None\<rparr>\<rparr>"
  using assms by (simp add: handleMouseUp_def Let_def case_prod_beta)

lemma handleMouseUp_requests:
  assumes "isDragging (dragState st)" and "dragParty (dragState st) = Some p"
      and "containerRect (dragState st) = Some r"
  shows "\<exists>rest. requests (handleMouseUp cx cy response st) =
     requests st @ UpdatePosition (name p) (fst (releasePosition r cx cy))
                                           (snd (releasePosition r cx cy)) # rest"
proof (cases response)
  case Failed
  then show ?thesis
    using assms by (simp add: handleMouseUp_def Let_def case_prod_beta fetch_def)
next
  case (Reply d)
  show ?thesis
  proof (cases "data_success d")
    case False
    then show ?thesis
      using assms Reply by (simp add: handleMouseUp_def Let_def case_prod_beta fetch_def)
  next
    case True
    let ?up = "UpdatePosition (name p) (fst (releasePosition r cx cy)) (snd (releasePosition r cx cy))"
    let ?st1 = "updateSpectrum ((fetch ?up st)\<lparr>parties := data_parties d\<rparr>)"
    have r1: "requests ?st1 = requests st @ [?up]" by (simp add: fetch_def)
    have "requests (updateCoalitions ?st1) = requests ?st1
        \<or> (\<exists>q. requests (updateCoalitions ?st1) = requests ?st1 @ [q])"
      using updateCoalitions_sends [of ?st1] updateCoalitions_clamps [of ?st1] by blast
    then have "\<exists>rest. requests (updateCoalitions ?st1) = requests st @ ?up # rest"
      unfolding r1 by auto
    then show ?thesis
      unfolding Reply handleMouseUp_success [OF assms True] by simp
  qed
qed

subsection \<open>The constraint lists\<close>

lemma sort2: "sort [a, b] = (if a \<le> b then [a, b] else [b, a])"
  by simp

lemma run_Nil [simp]: "run st [] = st"
  by (simp add: run_def)

lemma run_Cons [simp]: "run st (a # acts) = run (step st a) acts"
  by (simp add: run_def)

lemma set_splice1: "set (splice1 i xs) \<subseteq> set xs"
proof -
  have "set (take n xs) \<subseteq> set xs" and "set (drop m xs) \<subseteq> set xs" for n m
    by (rule set_take_subset, rule set_drop_subset)
  then show ?thesis by (auto simp: splice1_def Let_def)
qed

lemma addExclusion_lists:
  "inclusions (snd (addExclusion st)) = inclusions st"
  "exclusions (snd (addExclusion st)) = exclusions st \<or>
     selected_value (exclude_party1 st) \<noteq> [] \<and>
     selected_value (exclude_party1 st) \<noteq> selected_value (exclude_party2 st) \<and>
     exclusions (snd (addExclusion st)) =
       exclusions st @ [if selected_value (exclude_party2 st) = []
                        then [selected_value (exclude_party1 st)]
                        else sort [selected_value (exclude_party1 st),
                                   selected_value (exclude_party2 st)]]"
  by (simp_all add: addExclusion_def alert_def Let_def del: sort_key_simps)

lemma addInclusion_lists:
  "exclusions (snd (addInclusion st)) = exclusions st"
  "inclusions (snd (addInclusion st)) = inclusions st \<or>
     selected_value (include_party1 st) \<noteq> selected_value (include_party2 st) \<and>
     inclusions (snd (addInclusion st)) =
       inclusions st @ [sort [selected_value (include_party1 st),
                              selected_value (include_party2 st)]]"
  by (simp_all add: addInclusion_def alert_def Let_def del: sort_key_simps)

lemma canonical_new:
  "p1 \<noteq> p2 \<Longrightarrow> length (sort [p1, p2]) = 2 \<and> distinct (sort [p1, p2]) \<and> sorted (sort [p1, p2])"
  by (auto simp: sort2)

lemma step_keeps_canonical:
  assumes "canonical st"
  shows "canonical (step st a)"
proof -
  have ex: "\<forall>e\<in>set (exclusions st). (length e = 1 \<or> length e = 2) \<and> distinct e \<and> sorted e"
   and inc: "\<forall>i\<in>set (inclusions st). length i = 2 \<and> distinct i \<and> sorted i"
    using assms by blast+
  show ?thesis
proof (cases a)
  case (AddExclusion p1 p2)
  let ?st = "st\<lparr>exclude_party1 := (exclude_party1 st)\<lparr>selected_value := p1\<rparr>,
                 exclude_party2 := (exclude_party2 st)\<lparr>selected_value := p2\<rparr>\<rparr>"
  have a: "step st a = snd (addExclusion ?st)" using AddExclusion by simp
  have i: "inclusions (step st a) = inclusions st"
    unfolding a by (simp add: addExclusion_lists(1))
  have sel: "selected_value (exclude_party1 ?st) = p1" "selected_value (exclude_party2 ?st) = p2"
    "exclusions ?st = exclusions st"
    by simp_all
  have "exclusions (step st a) = exclusions st \<or>
        p1 \<noteq> p2 \<and> exclusions (step st a) = exclusions st @ [if p2 = [] then [p1] else sort [p1, p2]]"
    using addExclusion_lists(2) [of ?st] unfolding a sel by blast
  then consider (same) "exclusions (step st a) = exclusions st"
    | (single) "p2 = []" "exclusions (step st a) = exclusions st @ [[p1]]"
    | (pair) "p1 \<noteq> p2" "exclusions (step st a) = exclusions st @ [sort [p1, p2]]"
    by (cases "p2 = []") auto
  then show ?thesis
  proof cases
    case same
    then show ?thesis using ex inc i by simp
  next
    case single
    then show ?thesis using ex inc i by simp
  next
    case pair
    then show ?thesis using ex inc i canonical_new [OF pair(1)] by simp
  qed
next
  case (AddInclusion p1 p2)
  let ?st = "st\<lparr>include_party1 := (include_party1 st)\<lparr>selected_value := p1\<rparr>,
                 include_party2 := (include_party2 st)\<lparr>selected_value := p2\<rparr>\<rparr>"
  have a: "step st a = snd (addInclusion ?st)" using AddInclusion by simp
  have e: "exclusions (step st a) = exclusions st"
    unfolding a by (simp add: addInclusion_lists(1))
  have sel: "selected_value (include_party1 ?st) = p1" "selected_value (include_party2 ?st) = p2"
    "inclusions ?st = inclusions st"
    by simp_all
  have "inclusions (step st a) = inclusions st \<or>
        p1 \<noteq> p2 \<and> inclusions (step st a) = inclusions st @ [sort [p1, p2]]"
    using addInclusion_lists(2) [of ?st] unfolding a sel by blast
  then consider (same) "inclusions (step st a) = inclusions st"
    | (pair) "p1 \<noteq> p2" "inclusions (step st a) = inclusions st @ [sort [p1, p2]]"
    by auto
  then show ?thesis
  proof cases
    case same
    then show ?thesis using ex inc e by simp
  next
    case pair
    then show ?thesis using ex inc e canonical_new [OF pair(1)] by simp
  qed
next
  case (RemoveExclusion i)
  then show ?thesis
    using ex inc set_splice1 [of i "exclusions st"]
    by (auto simp: removeExclusion_def)
next
  case (RemoveInclusion i)
  then show ?thesis
    using ex inc set_splice1 [of i "inclusions st"]
    by (auto simp: removeInclusion_def)
qed
qed

lemma run_keeps_canonical: "canonical st \<Longrightarrow> canonical (run st acts)"
proof (induction acts arbitrary: st)
  case Nil
  then show ?case by (simp only: run_Nil)
next
  case (Cons a acts)
  have "canonical (step st a)"
    using Cons.prems by (rule step_keeps_canonical)
  then have "canonical (run (step st a) acts)"
    by (rule Cons.IH)
  then show ?case by (simp only: run_Cons)
qed

lemma add_rejects:
  "fst (addExclusion st) = Rejected \<longleftrightarrow>
     (let p1 = selected_value (exclude_party1 st); p2 = selected_value (exclude_party2 st);
          e = (if p2 = [] then [p1] else sort [p1, p2]) in
      p1 = [] \<or> (p2 \<noteq> [] \<and> p1 = p2)
      \<or> list_ex (\<lambda>x. join_dash x = join_dash e) (exclusions st)
      \<or> list_ex (\<lambda>x. join_dash x = join_dash e) (inclusions st))"
  "fst (addInclusion st) = Rejected \<longleftrightarrow>
     (let p1 = selected_value (include_party1 st); p2 = selected_value (include_party2 st) in
      p1 = [] \<or> p2 = [] \<or> p1 = p2
      \<or> list_ex (\<lambda>x. join_dash x = join_dash (sort [p1, p2])) (inclusions st)
      \<or> list_ex (\<lambda>x. join_dash x = join_dash (sort [p1, p2])) (exclusions st))"
  by (simp_all add: addExclusion_def addInclusion_def Let_def del: sort_key_simps)

lemma add_lists:
  "exclusions (snd (addExclusion st)) =
     (if fst (addExclusion st) = Rejected then exclusions st
      else exclusions st @ [if selected_value (exclude_party2 st) = []
                            then [selected_value (exclude_party1 st)]
                            else sort [selected_value (exclude_party1 st),
                                       selected_value (exclude_party2 st)]])"
  "inclusions (snd (addInclusion st)) =
     (if fst (addInclusion st) = Rejected then inclusions st
      else inclusions st @ [sort [selected_value (include_party1 st),
                                  selected_value (include_party2 st)]])"
  by (simp_all add: addExclusion_def addInclusion_def alert_def Let_def del: sort_key_simps)

lemma step_lists:
  "exclusions (step st (AddExclusion p1 p2)) =
     (let e = (if p2 = [] then [p1] else sort [p1, p2]) in
      if p1 = [] \<or> (p2 \<noteq> [] \<and> p1 = p2)
         \<or> list_ex (\<lambda>x. join_dash x = join_dash e) (exclusions st)
         \<or> list_ex (\<lambda>x. join_dash x = join_dash e) (inclusions st)
      then exclusions st else exclusions st @ [e])"
  "inclusions (step st (AddExclusion p1 p2)) = inclusions st"
  "inclusions (step st (AddInclusion p1 p2)) =
     (if p1 = [] \<or> p2 = [] \<or> p1 = p2
         \<or> list_ex (\<lambda>x. join_dash x = join_dash (sort [p1, p2])) (inclusions st)
         \<or> list_ex (\<lambda>x. join_dash x = join_dash (sort [p1, p2])) (exclusions st)
      then inclusions st else inclusions st @ [sort [p1, p2]])"
  "exclusions (step st (AddInclusion p1 p2)) = exclusions st"
  "exclusions (step st (RemoveExclusion i)) = splice1 i (exclusions st)"
  "inclusions (step st (RemoveExclusion i)) = inclusions st"
  "inclusions (step st (RemoveInclusion i)) = splice1 i (inclusions st)"
  "exclusions (step st (RemoveInclusion i)) = exclusions st"
  by (simp_all add: add_lists add_rejects addExclusion_lists(1) addInclusion_lists(1)
        removeExclusion_def removeInclusion_def Let_def del: sort_key_simps)

lemma step_poll_dropdown [simp]: "poll_dropdown (step st a) = poll_dropdown st"
  by (cases a)
     (simp_all add: addExclusion_def addInclusion_def removeExclusion_def
        removeInclusion_def updateCoalitions_def alert_def fetch_def Let_def
        del: sort_key_simps)

declare step.simps [simp del]

lemma initial_lists: "exclusions initial = []" "inclusions initial = []"
  by (simp_all add: initial_def)

lemma pick_lists [simp]:
  "exclusions (pick a b c d st) = exclusions st" "inclusions (pick a b c d st) = inclusions st"
  by (simp_all add: pick_def)

lemma join_dash_eq_iff:
  assumes "length e = 1 \<or> length e = 2" and "length p = 1 \<or> length p = 2"
      and "\<forall>n\<in>set e. dash_free n" and "\<forall>n\<in>set p. dash_free n"
  shows "join_dash e = join_dash p \<longleftrightarrow> e = p"
proof -
  consider (one) a where "e = [a]" | (two) a b where "e = [a, b]"
    using assms(1) by (auto simp: length_Suc_conv numeral_2_eq_2)
  then show ?thesis
  proof cases
    case one
    consider (one') c where "p = [c]" | (two') c d where "p = [c, d]"
      using assms(2) by (auto simp: length_Suc_conv numeral_2_eq_2)
    then show ?thesis
      using one assms(3) by cases (auto simp: dash_free_def)
  next
    case two
    consider (one') c where "p = [c]" | (two') c d where "p = [c, d]"
      using assms(2) by (auto simp: length_Suc_conv numeral_2_eq_2)
    then show ?thesis
    proof cases
      case one'
      then show ?thesis using two assms(4) by (auto simp: dash_free_def)
    next
      case two'
      then show ?thesis
        using two assms(3,4) by (simp add: dash_free_def append_Cons_eq_iff)
    qed
  qed
qed

lemma canonical_eq_iff:
  assumes "sorted e" "distinct e" "sorted p" "distinct p"
  shows "e = p \<longleftrightarrow> set e = set p"
  using assms sorted_distinct_set_unique by blast

subsection \<open>Rounding to binary64\<close>

lemma rne_of_int [simp]: "rne (of_int n) = n"
  by (simp add: rne_def)

lemma rne_near: "\<lfloor>r\<rfloor> \<le> rne r" "rne r \<le> \<lfloor>r\<rfloor> + 1"
  by (simp_all add: rne_def Let_def)

lemma rne_mono: "r \<le> s \<Longrightarrow> rne r \<le> rne s"
proof -
  assume rs: "r \<le> s"
  then have fl: "\<lfloor>r\<rfloor> \<le> \<lfloor>s\<rfloor>" by (rule floor_mono)
  show ?thesis
  proof (cases "\<lfloor>r\<rfloor> = \<lfloor>s\<rfloor>")
    case True
    then have "r - of_int \<lfloor>r\<rfloor> \<le> s - of_int \<lfloor>s\<rfloor>" using rs by simp
    then show ?thesis using True by (auto simp: rne_def Let_def)
  next
    case False
    then have "\<lfloor>r\<rfloor> + 1 \<le> \<lfloor>s\<rfloor>" using fl by simp
    then show ?thesis using rne_near(2) [of r] rne_near(1) [of s] by linarith
  qed
qed

lemma floor_minus_nonint: "r \<noteq> of_int \<lfloor>r\<rfloor> \<Longrightarrow> \<lfloor>- r\<rfloor> = - \<lfloor>r\<rfloor> - 1" for r :: real
proof -
  assume a: "r \<noteq> of_int \<lfloor>r\<rfloor>"
  have lo: "of_int \<lfloor>r\<rfloor> < r" using a of_int_floor_le [of r] by linarith
  have hi: "r < of_int \<lfloor>r\<rfloor> + 1" by linarith
  have c: "real_of_int (- \<lfloor>r\<rfloor> - 1) = - of_int \<lfloor>r\<rfloor> - 1" by simp
  have 1: "- r < of_int (- \<lfloor>r\<rfloor> - 1) + 1" unfolding c using lo by linarith
  have 2: "of_int (- \<lfloor>r\<rfloor> - 1) \<le> - r" unfolding c using hi by linarith
  from 2 1 show ?thesis by (rule floor_unique)
qed

lemma rne_minus: "rne (- r) = - rne r"
proof (cases "r = of_int \<lfloor>r\<rfloor>")
  case True
  then obtain n :: int where "r = of_int n" ..
  then have "rne (- r) = rne (of_int (- n))" by simp
  also have "\<dots> = - n" by (rule rne_of_int)
  finally show ?thesis using \<open>r = of_int n\<close> by simp
next
  case False
  then have c: "\<lfloor>- r\<rfloor> = - \<lfloor>r\<rfloor> - 1" by (rule floor_minus_nonint)
  have d: "- r - of_int (- \<lfloor>r\<rfloor> - 1) = 1 - (r - of_int \<lfloor>r\<rfloor>)" by simp
  have pos: "0 < r - of_int \<lfloor>r\<rfloor>" using False of_int_floor_le [of r] by linarith
  show ?thesis
    unfolding rne_def Let_def c d using pos by auto
qed

lemma real_pow2_le: "2 ^ k \<le> n \<Longrightarrow> (2::real) ^ k \<le> real n" for n :: nat
proof -
  assume "2 ^ k \<le> n"
  then have "real (2 ^ k) \<le> real n" by (simp only: of_nat_le_iff)
  then show ?thesis by simp
qed

lemma real_le_pow2: "n \<le> 2 ^ k \<Longrightarrow> real n \<le> (2::real) ^ k" for n :: nat
proof -
  assume "n \<le> 2 ^ k"
  then have "real n \<le> real (2 ^ k)" by (simp only: of_nat_le_iff)
  then show ?thesis by simp
qed

lemma expo_floorlog:
  "expo x = (if 1 \<le> x then int (floorlog 2 (nat \<lfloor>x\<rfloor>)) - 1
             else - int (floorlog 2 (nat (\<lceil>1 / x\<rceil> - 1))))"
  by (simp add: expo_def bitlen_def)

lemma expo_ge1:
  assumes "1 \<le> x"
  shows "2 powi (expo x) \<le> x" and "x < 2 powi (expo x + 1)"
proof -
  let ?n = "nat \<lfloor>x\<rfloor>"
  let ?K = "floorlog 2 ?n"
  have fl: "1 \<le> \<lfloor>x\<rfloor>" using assms by simp
  then have n: "0 < ?n" by simp
  have K: "0 < ?K" using n by (simp add: floorlog_def)
  have b: "2 ^ (?K - 1) \<le> ?n" "?n < 2 ^ ?K"
    using floorlog_bounds [of ?n 2] n by simp_all
  have nx: "real ?n \<le> x" "x < real ?n + 1"
    using fl by simp_all
  have e: "expo x = int (?K - 1)" "expo x + 1 = int ?K"
    using assms K by (simp_all add: expo_floorlog)
  have "(2::real) ^ (?K - 1) \<le> real ?n" using b(1) by (rule real_pow2_le)
  then have "(2::real) ^ (?K - 1) \<le> x" using nx(1) by linarith
  then show "2 powi (expo x) \<le> x" by (simp only: e(1) power_int_of_nat)
  from b(2) have "Suc ?n \<le> 2 ^ ?K" by (rule Suc_leI)
  then have "?n + 1 \<le> 2 ^ ?K" by (simp only: Suc_eq_plus1)
  then have "real (?n + 1) \<le> 2 ^ ?K" by (rule real_le_pow2)
  then have "real ?n + 1 \<le> 2 ^ ?K" by (simp only: of_nat_add of_nat_1)
  then have "x < 2 ^ ?K" using nx(2) by linarith
  then show "x < 2 powi (expo x + 1)" by (simp only: e(2) power_int_of_nat)
qed

lemma expo_lt1:
  assumes "0 < x" and "x < 1"
  shows "2 powi (expo x) \<le> x" and "x < 2 powi (expo x + 1)"
proof -
  let ?c = "\<lceil>1 / x\<rceil>"
  let ?n = "nat (?c - 1)"
  let ?K = "floorlog 2 ?n"
  have y: "1 < 1 / x" using assms by simp
  then have c: "2 \<le> ?c" by linarith
  then have n: "0 < ?n" by simp
  have K: "0 < ?K" using n by (simp add: floorlog_def)
  have b: "2 ^ (?K - 1) \<le> ?n" "?n < 2 ^ ?K"
    using floorlog_bounds [of ?n 2] n by simp_all
  have "0 \<le> ?c - 1" using c by linarith
  then have "real ?n = of_int (?c - 1)" by (rule of_nat_nat)
  then have rn: "real ?n = of_int ?c - 1" by simp
  have cy: "of_int ?c - 1 < 1 / x" "1 / x \<le> of_int ?c" by linarith+
  have e: "expo x = - int ?K" "expo x + 1 = - int (?K - 1)"
    using assms K by (simp_all add: expo_floorlog)
  from b(2) have "Suc ?n \<le> 2 ^ ?K" by (rule Suc_leI)
  then have "?n + 1 \<le> 2 ^ ?K" by (simp only: Suc_eq_plus1)
  then have "real (?n + 1) \<le> 2 ^ ?K" by (rule real_le_pow2)
  then have "real ?n + 1 \<le> 2 ^ ?K" by (simp only: of_nat_add of_nat_1)
  then have "1 / x \<le> 2 ^ ?K" using rn cy(2) by linarith
  then have "1 \<le> 2 ^ ?K * x" using assms(1) by (simp add: pos_divide_le_eq)
  then have "1 / 2 ^ ?K \<le> x" by (simp add: pos_divide_le_eq mult.commute)
  then show "2 powi (expo x) \<le> x" by (simp only: e(1) power_int_minus_divide power_int_of_nat)
  have "(2::real) ^ (?K - 1) \<le> real ?n" using b(1) by (rule real_pow2_le)
  then have "2 ^ (?K - 1) < 1 / x" using rn cy(1) by linarith
  then have "2 ^ (?K - 1) * x < 1" using assms(1) by (simp add: pos_less_divide_eq)
  then have "x < 1 / 2 ^ (?K - 1)" by (simp add: pos_less_divide_eq mult.commute)
  then show "x < 2 powi (expo x + 1)" by (simp only: e(2) power_int_minus_divide power_int_of_nat)
qed

lemma expo_bounds:
  assumes "0 < x"
  shows "2 powi (expo x) \<le> x" and "x < 2 powi (expo x + 1)"
  using expo_ge1 [of x] expo_lt1 [of x] assms by (cases "1 \<le> x"; simp)+

lemma pow2_less_exp: "(2::real) powi a < 2 powi b \<Longrightarrow> a < b"
proof (rule ccontr)
  assume lt: "(2::real) powi a < 2 powi b" and "\<not> a < b"
  then have "b \<le> a" by simp
  then have "(2::real) powi b \<le> 2 powi a" by (rule power_int_increasing) simp
  with lt show False by simp
qed

lemma expo_mono:
  assumes "0 < x" and "x \<le> y"
  shows "expo x \<le> expo y"
proof -
  have y: "0 < y" using assms by simp
  have "2 powi (expo x) \<le> x" using assms(1) by (rule expo_bounds)
  also have "x \<le> y" by fact
  also have "y < 2 powi (expo y + 1)" using y by (rule expo_bounds)
  finally have "expo x < expo y + 1" by (rule pow2_less_exp)
  then show ?thesis by simp
qed

lemma expo_le_if:
  assumes "0 < x" and "x < 2 powi (e + 1)"
  shows "expo x \<le> e"
proof -
  have "2 powi (expo x) \<le> x" using assms(1) by (rule expo_bounds)
  also have "x < 2 powi (e + 1)" by fact
  finally have "expo x < e + 1" by (rule pow2_less_exp)
  then show ?thesis by simp
qed

lemma expo_ge_if:
  assumes "0 < x" and "2 powi e \<le> x"
  shows "e \<le> expo x"
proof -
  have "2 powi e \<le> x" by fact
  also have "x < 2 powi (expo x + 1)" using assms(1) by (rule expo_bounds)
  finally have "e < expo x + 1" by (rule pow2_less_exp)
  then show ?thesis by simp
qed

lemma ulp64_pos [simp]: "0 < ulp64 x"
  by (simp add: ulp64_def)

lemma ulp64_minus [simp]: "ulp64 (- x) = ulp64 x"
  by (simp add: ulp64_def)

lemma binary64_0 [simp]: "binary64 0 = 0"
  by (simp add: binary64_def)

lemma binary64_minus: "binary64 (- x) = - binary64 x"
  by (simp add: binary64_def rne_minus)

lemma binary64_nonneg: "0 \<le> x \<Longrightarrow> 0 \<le> binary64 x"
proof -
  assume "0 \<le> x"
  then have "0 \<le> x / ulp64 x" by (rule divide_nonneg_pos) (rule ulp64_pos)
  then have "rne 0 \<le> rne (x / ulp64 x)" by (rule rne_mono)
  moreover have "rne 0 = 0" using rne_of_int [of 0] by simp
  ultimately have "0 \<le> rne (x / ulp64 x)" by simp
  then have "(0::real) \<le> of_int (rne (x / ulp64 x))" by simp
  then have "0 \<le> of_int (rne (x / ulp64 x)) * ulp64 x"
    by (rule mult_nonneg_nonneg) (rule less_imp_le [OF ulp64_pos])
  then show ?thesis by (simp add: binary64_def)
qed

text \<open>A binary64 value: an integer of fewer than 54 bits times a power of two that is at
  least the subnormal spacing.\<close>

lemma binary64_exact:
  assumes x: "x = of_int m * 2 powi k" and m: "0 < m" "m < 2 ^ 53" and k: "- 1074 \<le> k"
  shows "binary64 x = x"
proof -
  let ?j = "max (expo \<bar>x\<bar>) (- 1022) - 52"
  have pos: "0 < x" using x m(1) by simp
  have "of_int m * 2 powi k < 2 ^ 53 * (2::real) powi k"
    using m(2) by (simp add: mult_strict_right_mono)
  then have "x < 2 ^ 53 * 2 powi k" by (simp only: x)
  also have "\<dots> = 2 powi (53 + k)" by (simp add: power_int_add)
  finally have "x < 2 powi ((52 + k) + 1)" by (simp add: add.commute add.left_commute)
  with pos have "expo x \<le> 52 + k" by (rule expo_le_if)
  then have jk: "?j \<le> k" using k pos by simp
  define d where "d = nat (k - ?j)"
  define u where "u = ulp64 x"
  have u: "0 < u" by (simp add: u_def)
  have kd: "k = ?j + int d" using jk by (simp add: d_def)
  have "(2::real) powi k = 2 powi (?j + int d)" using kd by simp
  also have "\<dots> = 2 powi ?j * 2 ^ d" by (simp add: power_int_add)
  finally have "x = of_int m * (2 powi ?j * 2 ^ d)" by (simp only: x)
  then have "x = of_int (m * 2 ^ d) * 2 powi ?j"
    by (simp add: mult.commute mult.left_commute)
  then have xu: "x = of_int (m * 2 ^ d) * u" by (simp only: u_def ulp64_def)
  then have "x / u = of_int (m * 2 ^ d) * u / u"
    by (rule arg_cong [where f = "\<lambda>t. t / u"])
  then have "x / u = of_int (m * 2 ^ d)" using u by simp
  then have "rne (x / u) = m * 2 ^ d"
    by (simp only: rne_of_int)
  then have "of_int (rne (x / u)) * u = x" using xu by simp
  then show ?thesis
    using pos by (simp add: binary64_def u_def)
qed

lemma pow2_53: "(2::real) ^ 53 * 2 powi (E - 52) = 2 powi (E + 1)"
proof -
  have "(2::real) powi (53 + (E - 52)) = 2 powi 53 * 2 powi (E - 52)"
    by (rule power_int_add) simp
  moreover have "53 + (E - 52) = E + 1" by simp
  ultimately show ?thesis by simp
qed

lemma pow2_52: "(2::real) ^ 52 * 2 powi (E - 52) = 2 powi E"
proof -
  have "(2::real) powi (52 + (E - 52)) = 2 powi 52 * 2 powi (E - 52)"
    by (rule power_int_add) simp
  moreover have "52 + (E - 52) = E" by simp
  ultimately show ?thesis by simp
qed

lemma ulp64_of_pos: "0 < x \<Longrightarrow> ulp64 x = 2 powi (max (expo x) (- 1022) - 52)"
  by (simp add: ulp64_def)

lemma binary64_of_pos: "0 < x \<Longrightarrow> binary64 x = of_int (rne (x / ulp64 x)) * ulp64 x"
  by (simp add: binary64_def)

lemma binary64_upper:
  assumes "0 < x"
  shows "binary64 x \<le> 2 powi (max (expo x) (- 1022) + 1)"
proof -
  let ?E = "max (expo x) (- 1022)"
  let ?u = "2 powi (?E - 52) :: real"
  have u: "ulp64 x = ?u" using assms by (rule ulp64_of_pos)
  have upos: "0 < ?u" by simp
  have "x < 2 powi (expo x + 1)" using assms by (rule expo_bounds)
  also have "\<dots> \<le> 2 powi (?E + 1)" by (rule power_int_increasing) simp_all
  also have "\<dots> = 2 ^ 53 * ?u" by (rule pow2_53 [symmetric])
  finally have "x / ?u < 2 ^ 53" using upos by (simp add: pos_divide_less_eq)
  then have "x / ?u \<le> of_int (2 ^ 53)" by simp
  then have "rne (x / ?u) \<le> rne (of_int (2 ^ 53))" by (rule rne_mono)
  then have "rne (x / ?u) \<le> 2 ^ 53" by (simp only: rne_of_int)
  then have "real_of_int (rne (x / ?u)) \<le> 2 ^ 53"
    by (metis of_int_le_iff of_int_numeral of_int_power)
  then have "of_int (rne (x / ?u)) * ?u \<le> 2 ^ 53 * ?u"
    using upos by (simp only: mult_le_cancel_right_pos)
  then show ?thesis
    unfolding binary64_of_pos [OF assms] u by (simp only: pow2_53)
qed

lemma binary64_lower:
  assumes "0 < x" and "- 1022 \<le> expo x"
  shows "2 powi (expo x) \<le> binary64 x"
proof -
  let ?E = "expo x"
  let ?u = "2 powi (?E - 52) :: real"
  have "max ?E (- 1022) = ?E" using assms(2) by simp
  then have u: "ulp64 x = ?u" using ulp64_of_pos [OF assms(1)] by simp
  have upos: "0 < ?u" by simp
  have "2 ^ 52 * ?u = 2 powi ?E" by (rule pow2_52)
  also have "\<dots> \<le> x" using assms(1) by (rule expo_bounds)
  finally have "2 ^ 52 \<le> x / ?u" using upos by (simp add: pos_le_divide_eq)
  then have "of_int (2 ^ 52) \<le> x / ?u" by simp
  then have "rne (of_int (2 ^ 52)) \<le> rne (x / ?u)" by (rule rne_mono)
  then have "2 ^ 52 \<le> rne (x / ?u)" by (simp only: rne_of_int)
  then have "2 ^ 52 \<le> real_of_int (rne (x / ?u))"
    by (metis of_int_le_iff of_int_numeral of_int_power)
  then have "2 ^ 52 * ?u \<le> of_int (rne (x / ?u)) * ?u"
    using upos by (simp only: mult_le_cancel_right_pos)
  then show ?thesis
    unfolding binary64_of_pos [OF assms(1)] u by (simp only: pow2_52)
qed

lemma binary64_mono_pos:
  assumes "0 < x" and "x \<le> y"
  shows "binary64 x \<le> binary64 y"
proof -
  let ?Ex = "max (expo x) (- 1022)"
  let ?Ey = "max (expo y) (- 1022)"
  have y: "0 < y" using assms by simp
  have "expo x \<le> expo y" using assms by (rule expo_mono)
  then have le: "?Ex \<le> ?Ey" by simp
  show ?thesis
  proof (cases "?Ex = ?Ey")
    case True
    then have u: "ulp64 y = ulp64 x"
      by (simp only: ulp64_of_pos [OF assms(1)] ulp64_of_pos [OF y])
    have "x / ulp64 x \<le> y / ulp64 x"
      using assms(2) less_imp_le [OF ulp64_pos] by (rule divide_right_mono)
    then have "rne (x / ulp64 x) \<le> rne (y / ulp64 x)" by (rule rne_mono)
    then have "real_of_int (rne (x / ulp64 x)) \<le> of_int (rne (y / ulp64 x))" by simp
    then have "of_int (rne (x / ulp64 x)) * ulp64 x \<le> of_int (rne (y / ulp64 x)) * ulp64 x"
      using ulp64_pos [of x] by (simp only: mult_le_cancel_right_pos)
    then show ?thesis
      by (simp only: binary64_of_pos [OF assms(1)] binary64_of_pos [OF y] u)
  next
    case False
    with le have lt: "?Ex < ?Ey" by (rule le_neq_trans)
    then have ey2: "- 1022 \<le> expo y" by linarith
    then have ey1: "?Ey = expo y" by (rule max_absorb1)
    note ey = ey1 ey2
    have "binary64 x \<le> 2 powi (?Ex + 1)" using assms(1) by (rule binary64_upper)
    also have "\<dots> \<le> 2 powi (expo y)"
    proof (rule power_int_increasing)
      show "?Ex + 1 \<le> expo y" using lt ey(1) by linarith
    qed simp
    also have "\<dots> \<le> binary64 y" using y ey(2) by (rule binary64_lower)
    finally show ?thesis .
  qed
qed

lemma binary64_mono:
  assumes "x \<le> y"
  shows "binary64 x \<le> binary64 y"
proof -
  consider (pos) "0 < x" | (mid) "x \<le> 0" "0 \<le> y" | (neg) "y < 0"
    using assms by linarith
  then show ?thesis
  proof cases
    case pos
    then show ?thesis using assms by (rule binary64_mono_pos)
  next
    case mid
    have "0 \<le> binary64 (- x)" using mid(1) by (intro binary64_nonneg) simp
    then have "binary64 x \<le> 0" by (simp add: binary64_minus)
    also have "0 \<le> binary64 y" using mid(2) by (rule binary64_nonneg)
    finally show ?thesis .
  next
    case neg
    have "binary64 (- y) \<le> binary64 (- x)"
      using neg assms by (intro binary64_mono_pos) simp_all
    then show ?thesis by (simp add: binary64_minus)
  qed
qed

lemma binary64_grid:
  assumes "binary64 w = w" and "0 < w"
  shows "\<exists>n. w = of_int n * ulp64 w \<and> 0 < n \<and> n < 2 ^ 53"
proof -
  let ?E = "max (expo w) (- 1022)"
  let ?n = "rne (w / ulp64 w)"
  have u: "ulp64 w = 2 powi (?E - 52)" using assms(2) by (rule ulp64_of_pos)
  have w: "w = of_int ?n * ulp64 w"
    using assms by (simp add: binary64_def)
  have "0 < of_int ?n * ulp64 w" using w assms(2) by simp
  then have "0 < real_of_int ?n" using ulp64_pos [of w] by (simp only: zero_less_mult_pos2)
  then have pos: "0 < ?n" by simp
  have "w < 2 powi (expo w + 1)" using assms(2) by (rule expo_bounds)
  also have "\<dots> \<le> 2 powi (?E + 1)" by (rule power_int_increasing) simp_all
  also have "\<dots> = 2 ^ 53 * ulp64 w" unfolding u by (rule pow2_53 [symmetric])
  finally have "of_int ?n * ulp64 w < 2 ^ 53 * ulp64 w" using w by simp
  then have "real_of_int ?n < 2 ^ 53"
    using ulp64_pos [of w] by (simp only: mult_less_cancel_right_pos)
  then have "?n < 2 ^ 53"
    by (metis of_int_less_iff of_int_numeral of_int_power)
  with w pos show ?thesis by blast
qed

text \<open>Subtracting the padding, or twice the padding, from a container dimension is
  exact.\<close>

lemma binary64_minus_padding:
  assumes rep: "binary64 w = w" and lo: "100 < w" and hi: "w \<le> 2 ^ 53"
      and c: "c = 25 \<or> c = 50"
  shows "binary64 (w - 2 * of_int c) = w - 2 * of_int c"
proof -
  have wpos: "0 < w" using lo by simp
  have "(2::real) powi 6 \<le> w" using lo by simp
  with wpos have e6: "6 \<le> expo w" by (rule expo_ge_if)
  have "w < 2 powi (53 + 1)" using hi by simp
  with wpos have e53: "expo w \<le> 53" by (rule expo_le_if)
  have E: "max (expo w) (- 1022) = expo w" using e6 by simp
  have u: "ulp64 w = 2 powi (expo w - 52)"
    using ulp64_of_pos [OF wpos] by (simp only: E)
  obtain n where n: "w = of_int n * ulp64 w" "0 < n" "n < 2 ^ 53"
    using binary64_grid [OF rep wpos] by blast
  define d where "d = nat (53 - expo w)"
  have "(2::real) powi ((53 - expo w) + (expo w - 52)) = 2 powi (53 - expo w) * 2 powi (expo w - 52)"
    by (rule power_int_add) simp
  moreover have "(2::real) powi (53 - expo w) = 2 ^ d"
    using e53 by (simp add: d_def power_int_def)
  ultimately have two: "2 ^ d * ulp64 w = 2" by (simp add: u)
  have "w - 2 * of_int c = of_int n * ulp64 w - of_int c * (2 ^ d * ulp64 w)"
    using n(1) two by simp
  also have "\<dots> = of_int (n - c * 2 ^ d) * ulp64 w"
    by (simp add: algebra_simps)
  finally have x: "w - 2 * of_int c = of_int (n - c * 2 ^ d) * 2 powi (expo w - 52)"
    by (simp only: u)
  have "0 < w - 2 * real_of_int c" using lo c by auto
  then have "0 < of_int (n - c * 2 ^ d) * ulp64 w" using x u by simp
  then have "0 < real_of_int (n - c * 2 ^ d)"
    using ulp64_pos [of w] by (simp only: zero_less_mult_pos2)
  then have m1: "0 < n - c * 2 ^ d" by (simp only: of_int_0_less_iff)
  have "0 \<le> c * 2 ^ d" using c by auto
  then have m2: "n - c * 2 ^ d < 2 ^ 53" using n(3) by linarith
  have k: "- 1074 \<le> expo w - 52" using e6 by simp
  from x m1 m2 k show ?thesis by (rule binary64_exact)
qed

lemma binary64_consts:
  "binary64 1 = 1" "binary64 2 = 2" "binary64 (- 1) = - 1" "binary64 100 = 100"
  "binary64 50 = 50"
  by code_simp+

lemma binary64_400: "binary64 400 = 400"
  by code_simp

text \<open>Whole numbers: exact up to \<open>2^53\<close>, and whole after rounding.\<close>

lemma binary64_int:
  assumes "\<bar>n\<bar> \<le> 2 ^ 53"
  shows "binary64 (of_int n) = of_int n"
proof -
  have pos: "binary64 (of_int m) = of_int m" if "0 < m" "m \<le> 2 ^ 53" for m :: int
  proof (cases "m = 2 ^ 53")
    case True
    have "binary64 (of_int 1 * 2 powi 53) = of_int 1 * 2 powi 53"
      by (rule binary64_exact [where m = 1 and k = 53]) simp_all
    then show ?thesis using True by simp
  next
    case False
    then have "m < 2 ^ 53" using that by simp
    then show ?thesis
      using that binary64_exact [of "of_int m" m 0] by simp
  qed
  consider "n = 0" | "0 < n" | "n < 0" by linarith
  then show ?thesis
  proof cases
    case 1
    then show ?thesis by simp
  next
    case 2
    then show ?thesis using pos [of n] assms by simp
  next
    case 3
    then have "binary64 (of_int (- n)) = of_int (- n)" using pos [of "- n"] assms by simp
    then show ?thesis using binary64_minus [of "of_int n"] by simp
  qed
qed

lemma binary64_whole: "of_int \<lfloor>binary64 (of_int n)\<rfloor> = binary64 (of_int n)"
proof -
  have big: "\<exists>m. binary64 (of_int k) = of_int m" if "2 ^ 53 < k" for k :: int
  proof -
    let ?x = "real_of_int k"
    have x: "0 < ?x" using that by simp
    have "(2::real) powi 53 \<le> ?x" using that by simp
    then have E: "53 \<le> expo ?x" using x by (intro expo_ge_if) simp_all
    define j where "j = nat (expo ?x - 52)"
    have m: "max (expo ?x) (- 1022) - 52 = int j" using E by (simp add: j_def)
    have "ulp64 ?x = 2 powi (max (expo ?x) (- 1022) - 52)" using x by (rule ulp64_of_pos)
    then have "ulp64 ?x = 2 powi (int j)" by (simp only: m)
    then have u: "ulp64 ?x = of_int (2 ^ j)" by simp
    have "binary64 ?x = of_int (rne (?x / ulp64 ?x)) * ulp64 ?x"
      using x by (rule binary64_of_pos)
    also have "\<dots> = of_int (rne (?x / ulp64 ?x) * 2 ^ j)" by (simp only: u of_int_mult)
    finally show ?thesis ..
  qed
  have "\<exists>m. binary64 (of_int n) = of_int m"
  proof -
    consider "\<bar>n\<bar> \<le> 2 ^ 53" | "2 ^ 53 < n" | "2 ^ 53 < - n" by linarith
    then show ?thesis
    proof cases
      case 1
      then show ?thesis using binary64_int by blast
    next
      case 2
      then show ?thesis by (rule big)
    next
      case 3
      then obtain m where "binary64 (of_int (- n)) = of_int m" using big by blast
      then have "binary64 (of_int n) = of_int (- m)"
        using binary64_minus [of "of_int n"] by simp
      then show ?thesis ..
    qed
  qed
  then obtain m where "binary64 (of_int n) = of_int m" ..
  then show ?thesis by simp
qed

lemma plus64_exact: "\<bar>a + b\<bar> \<le> 2 ^ 53 \<Longrightarrow> plus64 a b = a + b"
  using binary64_int [of "a + b"] by (simp add: plus64_def)

lemma minus64_exact: "\<bar>a - b\<bar> \<le> 2 ^ 53 \<Longrightarrow> minus64 a b = a - b"
  using binary64_int [of "a - b"] by (simp add: minus64_def)

lemma plus64_real: "of_int (plus64 a b) = binary64 (of_int a + of_int b)"
  using binary64_whole [of "a + b"] by (simp add: plus64_def)

lemma foldl_plus64:
  "\<bar>a\<bar> + sum_list (map (\<lambda>p. \<bar>f p\<bar>) ps) \<le> 2 ^ 53 \<Longrightarrow>
     foldl (\<lambda>sum p. plus64 sum (f p)) a ps = a + sum_list (map f ps)"
proof (induction ps arbitrary: a)
  case Nil
  then show ?case by simp
next
  case (Cons p ps)
  have nn: "0 \<le> sum_list (map (\<lambda>p. \<bar>f p\<bar>) ps)" by (rule sum_list_nonneg) auto
  have "\<bar>a + f p\<bar> \<le> 2 ^ 53" using Cons.prems nn by simp
  then have 1: "plus64 a (f p) = a + f p" by (rule plus64_exact)
  have "\<bar>a + f p\<bar> + sum_list (map (\<lambda>p. \<bar>f p\<bar>) ps) \<le> 2 ^ 53" using Cons.prems by simp
  then show ?case using Cons.IH [of "a + f p"] 1 by simp
qed

lemma sum_list_filter_le:
  "sum_list (map (\<lambda>p. \<bar>f p\<bar>) (filter P ps)) \<le> sum_list (map (\<lambda>p. \<bar>f p\<bar>) ps)"
  for f :: "'a \<Rightarrow> int"
  by (induction ps) auto

lemma plus64_rounds: "plus64 9007199254740992 1 = 9007199254740992"
  unfolding plus64_def by code_simp

text \<open>How far a rounded result is from the exact one: half a unit in the last place, that
  is, a \<open>2^-53\<close>th of the magnitude, or \<open>2^-1075\<close> in the subnormal range.\<close>

lemma rne_err: "\<bar>of_int (rne r) - r\<bar> \<le> 1 / 2"
proof -
  have lo: "of_int \<lfloor>r\<rfloor> \<le> r" and hi: "r < of_int \<lfloor>r\<rfloor> + 1" by linarith+
  show ?thesis
    using lo hi by (auto simp: rne_def Let_def abs_le_iff)
qed

lemma binary64_err_ulp: "\<bar>binary64 x - x\<bar> \<le> ulp64 x / 2"
proof (cases "x = 0")
  case True
  have "0 \<le> ulp64 0" by (rule less_imp_le) (rule ulp64_pos)
  then show ?thesis using True by simp
next
  case False
  let ?u = "ulp64 x"
  let ?q = "x / ?u"
  have u: "0 < ?u" by (rule ulp64_pos)
  have u0: "?u \<noteq> 0" using u by linarith
  have "binary64 x - x = (of_int (rne ?q) - ?q) * ?u"
    using False u0 by (simp add: binary64_def left_diff_distrib)
  then have "\<bar>binary64 x - x\<bar> = \<bar>of_int (rne ?q) - ?q\<bar> * ?u"
    using u by (simp only: abs_mult abs_of_pos)
  also have "\<dots> \<le> (1 / 2) * ?u"
    using rne_err [of ?q] u by (rule mult_right_mono [OF _ less_imp_le])
  finally show ?thesis by simp
qed

lemma ulp64_le:
  assumes "x \<noteq> 0"
  shows "ulp64 x \<le> \<bar>x\<bar> / 2 ^ 52 + 2 powi (- 1074)"
proof -
  let ?E = "expo \<bar>x\<bar>"
  have pos: "0 < \<bar>x\<bar>" using assms by simp
  have lo: "2 powi ?E \<le> \<bar>x\<bar>" using pos by (rule expo_bounds)
  show ?thesis
  proof (cases "- 1022 \<le> ?E")
    case True
    then have "ulp64 x = 2 powi (?E - 52)" by (simp add: ulp64_def max_absorb1)
    moreover have "(2::real) ^ 52 * 2 powi (?E - 52) = 2 powi ?E" by (rule pow2_52)
    ultimately have "2 ^ 52 * ulp64 x \<le> \<bar>x\<bar>" using lo by simp
    then have "ulp64 x \<le> \<bar>x\<bar> / 2 ^ 52" by (simp add: pos_le_divide_eq mult.commute)
    moreover have "(0::real) \<le> 2 powi (- 1074)" by simp
    ultimately show ?thesis by linarith
  next
    case False
    then have "max ?E (- 1022) = - 1022" by simp
    then have "ulp64 x = 2 powi (- 1074)" by (simp add: ulp64_def)
    moreover have "0 \<le> \<bar>x\<bar> / 2 ^ 52" by simp
    ultimately show ?thesis by linarith
  qed
qed

lemma binary64_err: "\<bar>binary64 x - x\<bar> \<le> \<bar>x\<bar> / 2 ^ 53 + 2 powi (- 1075)"
proof (cases "x = 0")
  case True
  then show ?thesis by simp
next
  case False
  have "(2::real) powi (- 1074) = 2 powi (1 + (- 1075))" by simp
  also have "\<dots> = 2 powi 1 * 2 powi (- 1075)" by (rule power_int_add) simp
  finally have h: "(2::real) powi (- 1074) / 2 = 2 powi (- 1075)" by simp
  have "\<bar>binary64 x - x\<bar> \<le> ulp64 x / 2" by (rule binary64_err_ulp)
  also have "\<dots> \<le> (\<bar>x\<bar> / 2 ^ 52 + 2 powi (- 1074)) / 2"
    using ulp64_le [OF False] by simp
  also have "\<dots> = \<bar>x\<bar> / 2 ^ 53 + 2 powi (- 1074) / 2" by (simp add: add_divide_distrib)
  finally show ?thesis by (simp only: h)
qed

lemma subnormal_half_ulp: "(2::real) powi (- 1075) \<le> 1 / 2 ^ 60"
proof -
  have "(2::real) powi (- 1075) \<le> 2 powi (- 60)" by (rule power_int_increasing) simp_all
  also have "\<dots> = inverse (2 powi 60)" by (rule power_int_minus)
  also have "(2::real) powi 60 = 2 ^ 60" by simp
  finally show ?thesis by (simp only: inverse_eq_divide)
qed

text \<open>The error of one operation whose exact result is at most \<open>b\<close> in magnitude.\<close>

lemma binary64_within:
  assumes "\<bar>x\<bar> \<le> b"
  shows "\<bar>binary64 x - x\<bar> \<le> b / 2 ^ 53 + 1 / 2 ^ 60"
proof -
  have "\<bar>binary64 x - x\<bar> \<le> \<bar>x\<bar> / 2 ^ 53 + 2 powi (- 1075)" by (rule binary64_err)
  moreover have "\<bar>x\<bar> / 2 ^ 53 \<le> b / 2 ^ 53" using assms by (simp add: divide_right_mono)
  ultimately show ?thesis using subnormal_half_ulp by linarith
qed

subsection \<open>The two coordinate conversions\<close>

lemma usable_binary64:
  assumes "binary64 w = w" and "100 < w" and "w \<le> 2 ^ 53"
  shows "usable binary64 w 50 = w - 100" and "binary64 (w - 50) = w - 50"
  using binary64_minus_padding [OF assms, of 50] binary64_minus_padding [OF assms, of 25]
  by (simp_all add: usable_def binary64_consts)

lemma unit_range:
  assumes "0 < uw" and "0 \<le> a" and "a \<le> uw"
  shows "- 1 \<le> binary64 (binary64 (binary64 (a / uw) * 2) - 1)"
    and "binary64 (binary64 (binary64 (a / uw) * 2) - 1) \<le> 1"
proof -
  let ?q = "binary64 (a / uw)"
  let ?t = "binary64 (?q * 2)"
  have "0 \<le> a / uw" "a / uw \<le> 1" using assms by simp_all
  then have q: "0 \<le> ?q" "?q \<le> 1"
    using binary64_nonneg [of "a / uw"] binary64_mono [of "a / uw" 1]
    by (simp_all add: binary64_consts)
  then have "0 \<le> ?q * 2" "?q * 2 \<le> 2" by simp_all
  then have t: "0 \<le> ?t" "?t \<le> 2"
    using binary64_nonneg [of "?q * 2"] binary64_mono [of "?q * 2" 2]
    by (simp_all add: binary64_consts)
  then have "- 1 \<le> ?t - 1" "?t - 1 \<le> 1" by simp_all
  then show "- 1 \<le> binary64 (?t - 1)" "binary64 (?t - 1) \<le> 1"
    using binary64_mono [of "- 1" "?t - 1"] binary64_mono [of "?t - 1" 1]
    by (simp_all add: binary64_consts)
qed

lemma constrain_range:
  assumes "binary64 w = w" and "100 < w" and "w \<le> 2 ^ 53"
  shows "50 \<le> constrain binary64 50 w m" and "constrain binary64 50 w m \<le> w - 50"
  using assms(2) by (simp_all add: constrain_def usable_binary64(2) [OF assms])

lemma toEconomic_range:
  assumes "binary64 w = w" and "100 < w" and "w \<le> 2 ^ 53"
  shows "- 1 \<le> toEconomic binary64 50 (usable binary64 w 50) (constrain binary64 50 w m)"
    and "toEconomic binary64 50 (usable binary64 w 50) (constrain binary64 50 w m) \<le> 1"
proof -
  let ?c = "constrain binary64 50 w m"
  let ?a = "binary64 (?c - 50)"
  have c: "50 \<le> ?c" "?c \<le> w - 50" using assms by (rule constrain_range)+
  have uw: "usable binary64 w 50 = w - 100" using assms by (rule usable_binary64)
  have "0 \<le> ?c - 50" using c(1) by simp
  then have a0: "0 \<le> ?a" by (rule binary64_nonneg)
  have "?c - 50 \<le> w - 100" using c(2) by simp
  then have "?a \<le> binary64 (w - 100)" by (rule binary64_mono)
  then have a1: "?a \<le> w - 100" using uw by (simp add: usable_def binary64_consts)
  have pos: "0 < w - 100" using assms(2) by simp
  show "- 1 \<le> toEconomic binary64 50 (usable binary64 w 50) ?c"
    and "toEconomic binary64 50 (usable binary64 w 50) ?c \<le> 1"
    unfolding toEconomic_def uw using unit_range [OF pos a0 a1] by simp_all
qed

lemma toSocial_range:
  assumes "binary64 h = h" and "100 < h" and "h \<le> 2 ^ 53"
  shows "- 1 \<le> toSocial binary64 50 (usable binary64 h 50) (constrain binary64 50 h m)"
    and "toSocial binary64 50 (usable binary64 h 50) (constrain binary64 50 h m) \<le> 1"
  using toEconomic_range [OF assms, of m] by (simp_all add: toSocial_def toEconomic_def)

lemma releasePosition_range:
  assumes "binary64 (rect_width r) = rect_width r" and "100 < rect_width r"
      and "rect_width r \<le> 2 ^ 53"
      and "binary64 (rect_height r) = rect_height r" and "100 < rect_height r"
      and "rect_height r \<le> 2 ^ 53"
  shows "- 1 \<le> fst (releasePosition r cx cy)" "fst (releasePosition r cx cy) \<le> 1"
        "- 1 \<le> snd (releasePosition r cx cy)" "snd (releasePosition r cx cy) \<le> 1"
  using toEconomic_range [OF assms(1-3)] toSocial_range [OF assms(4-6)]
  by (simp_all add: releasePosition_def Let_def)

lemma pixelY_pixelX: "pixelY rnd p u s = pixelX rnd p u (- s)"
  by (simp add: pixelY_def pixelX_def)

lemma toSocial_toEconomic: "toSocial rnd p u c = - toEconomic rnd p u c"
  by (simp add: toSocial_def toEconomic_def)

lemma roundtrip_exact_economic:
  assumes "- 1 \<le> e" and "e \<le> 1" and "100 < w"
  shows "toEconomic exact 50 (usable exact w 50)
           (constrain exact 50 w (pixelX exact 50 (usable exact w 50) e)) = e"
proof -
  define uw where "uw = w - 50 * 2"
  define t where "t = (e + 1) / 2"
  define x where "x = 50 + t * uw"
  have uw: "0 < uw" using assms(3) by (simp add: uw_def)
  have t: "0 \<le> t" "t \<le> 1" using assms by (simp_all add: t_def)
  have "0 \<le> t * uw" using t(1) uw by (intro mult_nonneg_nonneg) simp_all
  then have lo: "50 \<le> x" by (simp add: x_def)
  have "t * uw \<le> 1 * uw" using t(2) uw by (intro mult_right_mono) simp_all
  then have hi: "x \<le> w - 50" by (simp add: x_def uw_def)
  have c: "max 50 (min (w - 50) x) = x" using lo hi by simp
  have "(x - 50) / uw = t" using uw by (simp add: x_def)
  then have "(x - 50) / uw * 2 - 1 = e" by (simp add: t_def)
  then have "(max 50 (min (w - 50) x) - 50) / uw * 2 - 1 = e" by (simp only: c)
  then show ?thesis
    unfolding toEconomic_def usable_def pixelX_def exact_def constrain_def
    by (simp only: x_def t_def uw_def)
qed

lemma roundtrip_exact_social:
  assumes "- 1 \<le> s" and "s \<le> 1" and "100 < h"
  shows "toSocial exact 50 (usable exact h 50)
           (constrain exact 50 h (pixelY exact 50 (usable exact h 50) s)) = s"
  using roundtrip_exact_economic [of "- s" h] assms
  by (simp add: pixelY_pixelX toSocial_toEconomic)

lemma roundtrip_binary64_right:
  assumes "binary64 w = w" and "100 < w" and "w \<le> 2 ^ 53"
  shows "toEconomic binary64 50 (usable binary64 w 50)
           (constrain binary64 50 w (pixelX binary64 50 (usable binary64 w 50) 1)) = 1"
proof -
  have uw: "usable binary64 w 50 = w - 100" and hi: "binary64 (w - 50) = w - 50"
    using assms by (rule usable_binary64)+
  have r: "binary64 (w - 100) = w - 100"
    using uw by (simp add: usable_def binary64_consts)
  have x: "pixelX binary64 50 (w - 100) 1 = w - 50"
    by (simp add: pixelX_def binary64_consts r hi)
  have c: "constrain binary64 50 w (w - 50) = w - 50"
    using assms(2) by (simp add: constrain_def hi)
  have "toEconomic binary64 50 (w - 100) (w - 50) = 1"
    using assms(2) by (simp add: toEconomic_def r binary64_consts)
  then show ?thesis by (simp only: uw x c)
qed

lemma roundtrip_binary64_left:
  assumes "binary64 w = w" and "100 < w" and "w \<le> 2 ^ 53"
  shows "toEconomic binary64 50 (usable binary64 w 50)
           (constrain binary64 50 w (pixelX binary64 50 (usable binary64 w 50) (- 1))) = - 1"
proof -
  have uw: "usable binary64 w 50 = w - 100" and hi: "binary64 (w - 50) = w - 50"
    using assms by (rule usable_binary64)+
  have x: "pixelX binary64 50 (w - 100) (- 1) = 50"
    by (simp add: pixelX_def binary64_consts)
  have c: "constrain binary64 50 w 50 = 50"
    using assms(2) by (simp add: constrain_def hi)
  have "toEconomic binary64 50 (w - 100) 50 = - 1"
    by (simp add: toEconomic_def binary64_consts)
  then show ?thesis by (simp only: uw x c)
qed

text \<open>The round trip in binary64: eight rounded operations, each within the error
  above.\<close>

lemma roundtrip_binary64_near:
  assumes rep: "binary64 w = w" and lo: "100 < w" and hi: "w \<le> 2 ^ 53"
      and e: "- 1 \<le> e" "e \<le> 1"
  shows "\<bar>toEconomic binary64 50 (usable binary64 w 50)
           (constrain binary64 50 w (pixelX binary64 50 (usable binary64 w 50) e)) - e\<bar>
         \<le> w / (w - 100) / 2 ^ 49"
proof -
  define u where "u = w - 100"
  define d :: real where "d = 1 / 2 ^ 53"
  define t :: real where "t = 1 / 2 ^ 60"
  define s where "s = (e + 1) / 2"
  define a1 where "a1 = binary64 (e + 1)"
  define a2 where "a2 = binary64 (a1 / 2)"
  define a3 where "a3 = binary64 (a2 * u)"
  define x where "x = binary64 (50 + a3)"
  define b1 where "b1 = binary64 (x - 50)"
  define b2 where "b2 = binary64 (b1 / u)"
  define b3 where "b3 = binary64 (b2 * 2)"
  define e' where "e' = binary64 (b3 - 1)"
  define P where "P = a2 * u"
  define Q where "Q = s * u"
  define du where "du = d * u"
  define tu where "tu = t * u"
  define dw where "dw = d * w"
  define R where "R = d * (w / u)"
  define S where "S = t * (w / u)"
  have upos: "0 < u" using lo by (simp add: u_def)
  have uw: "usable binary64 w 50 = u" and top: "binary64 (w - 50) = w - 50"
    using usable_binary64 [OF rep lo hi] by (simp_all add: u_def)
  have repu: "binary64 u = u"
    using binary64_minus_padding [OF rep lo hi, of 50] by (simp add: u_def)
  have within: "\<bar>binary64 y - y\<bar> \<le> d * b + t" if "\<bar>y\<bar> \<le> b" for y b
    using binary64_within [OF that] by (simp add: d_def t_def)
  text \<open>the range of each intermediate value\<close>
  have a1: "0 \<le> a1" "a1 \<le> 2"
    using binary64_nonneg [of "e + 1"] binary64_mono [of "e + 1" 2] e
    by (simp_all add: a1_def binary64_consts)
  have a2: "0 \<le> a2" "a2 \<le> 1"
    using binary64_nonneg [of "a1 / 2"] binary64_mono [of "a1 / 2" 1] a1
    by (simp_all add: a2_def binary64_consts)
  have P: "0 \<le> P" "P \<le> u"
    using a2 upos mult_right_mono [of a2 1 u] by (simp_all add: P_def)
  have a3: "0 \<le> a3" "a3 \<le> u"
    using binary64_nonneg [of P] binary64_mono [of P u] P repu
    by (simp_all add: a3_def P_def)
  have x: "50 \<le> x" "x \<le> w - 50"
    using binary64_mono [of 50 "50 + a3"] binary64_mono [of "50 + a3" "w - 50"] a3 top
    by (simp_all add: x_def binary64_consts u_def)
  have b1: "0 \<le> b1" "b1 \<le> u"
    using binary64_nonneg [of "x - 50"] binary64_mono [of "x - 50" u] x repu
    by (simp_all add: b1_def u_def)
  have q: "0 \<le> b1 / u" "b1 / u \<le> 1"
    using b1 upos by (simp_all add: divide_nonneg_pos)
  have b2: "0 \<le> b2" "b2 \<le> 1"
    using binary64_nonneg [of "b1 / u"] binary64_mono [of "b1 / u" 1] q
    by (simp_all add: b2_def binary64_consts)
  have b3: "0 \<le> b3" "b3 \<le> 2"
    using binary64_nonneg [of "b2 * 2"] binary64_mono [of "b2 * 2" 2] b2
    by (simp_all add: b3_def binary64_consts)
  text \<open>the error of each operation\<close>
  have E1: "\<bar>a1 - (e + 1)\<bar> \<le> 2 * d + t"
    using within [of "e + 1" 2] e by (simp add: a1_def)
  have E2: "\<bar>a2 - a1 / 2\<bar> \<le> d + t"
    using within [of "a1 / 2" 1] a1 by (simp add: a2_def)
  have E3: "\<bar>a3 - P\<bar> \<le> du + t"
    using within [of P u] P by (simp add: a3_def P_def du_def)
  have E4: "\<bar>x - (50 + a3)\<bar> \<le> dw + t"
    using within [of "50 + a3" w] a3 by (simp add: x_def dw_def u_def)
  have E5: "\<bar>b1 - (x - 50)\<bar> \<le> du + t"
    using within [of "x - 50" u] x by (simp add: b1_def du_def u_def)
  have E6: "\<bar>b2 - b1 / u\<bar> \<le> d + t"
    using within [of "b1 / u" 1] q by (simp add: b2_def)
  have E7: "\<bar>b3 - b2 * 2\<bar> \<le> 2 * d + t"
    using within [of "b2 * 2" 2] b2 by (simp add: b3_def)
  have E8: "\<bar>e' - (b3 - 1)\<bar> \<le> d + t"
    using within [of "b3 - 1" 1] b3 by (simp add: e'_def)
  text \<open>their sum\<close>
  have A2: "\<bar>a2 - s\<bar> \<le> 2 * d + 3 / 2 * t"
    using E1 E2 unfolding s_def abs_le_iff by (simp add: field_simps)
  have "\<bar>P - Q\<bar> = \<bar>a2 - s\<bar> * u"
    using upos by (simp add: P_def Q_def left_diff_distrib [symmetric] abs_mult)
  also have "\<dots> \<le> (2 * d + 3 / 2 * t) * u"
    using A2 upos by (simp add: mult_right_mono)
  finally have PQ: "\<bar>P - Q\<bar> \<le> 2 * du + 3 / 2 * tu"
    by (simp add: du_def tu_def algebra_simps)
  have B1: "\<bar>b1 - Q\<bar> \<le> 4 * du + dw + 3 * t + 3 / 2 * tu"
    using E3 E4 E5 PQ unfolding abs_le_iff by linarith
  have "b1 / u - s = (b1 - Q) / u"
    using upos by (simp add: Q_def diff_divide_distrib)
  then have "\<bar>b1 / u - s\<bar> = \<bar>b1 - Q\<bar> / u"
    using upos by (simp add: abs_divide)
  also have "\<dots> \<le> (4 * du + dw + 3 * t + 3 / 2 * tu) / u"
    using B1 upos by (simp add: divide_right_mono)
  also have "\<dots> = 4 * d + R + 3 * (t / u) + 3 / 2 * t"
    using upos by (simp add: du_def dw_def tu_def R_def add_divide_distrib)
  finally have B1': "\<bar>b1 / u - s\<bar> \<le> 4 * d + R + 3 * (t / u) + 3 / 2 * t" .
  have e_s: "2 * s = e + 1" by (simp add: s_def)
  have total: "\<bar>e' - e\<bar> \<le> 13 * d + 7 * t + 2 * R + 6 * (t / u)"
    using E6 E7 E8 B1' e_s unfolding abs_le_iff by linarith
  text \<open>and its bound\<close>
  have r: "1 \<le> w / u" using upos by (simp add: u_def)
  have dR: "d \<le> R" using r mult_left_mono [of 1 "w / u" d] by (simp add: R_def d_def)
  have tS: "t \<le> S" using r mult_left_mono [of 1 "w / u" t] by (simp add: S_def t_def)
  have SR: "S = R / 128" by (simp add: S_def R_def d_def t_def)
  have "t / u = S / w" using upos lo by (simp add: S_def)
  also have "\<dots> \<le> S / 100"
    using lo tS by (intro divide_left_mono) (simp_all add: t_def)
  finally have tu': "t / u \<le> S / 100" .
  have Rpos: "0 \<le> R" using dR by (simp add: d_def)
  have "\<bar>e' - e\<bar> \<le> 16 * R" using total dR tS SR tu' Rpos unfolding abs_le_iff by linarith
  moreover have "16 * R = w / (w - 100) / 2 ^ 49"
  proof -
    have c: "16 * d = 1 / 2 ^ 49" by (simp add: d_def)
    have "16 * R = (16 * d) * (w / u)" by (simp add: R_def)
    also have "\<dots> = w / u / 2 ^ 49" by (simp only: c) simp
    finally show ?thesis by (simp only: u_def)
  qed
  moreover have "toEconomic binary64 50 (usable binary64 w 50)
           (constrain binary64 50 w (pixelX binary64 50 (usable binary64 w 50) e)) = e'"
  proof -
    have px: "pixelX binary64 50 u e = x"
      by (simp add: pixelX_def x_def a3_def a2_def a1_def)
    have "constrain binary64 50 w x = x"
      using x by (simp add: constrain_def top)
    then show ?thesis
      by (simp add: uw px toEconomic_def e'_def b3_def b2_def b1_def)
  qed
  ultimately show ?thesis by simp
qed

subsection \<open>The example pages\<close>

lemma loaded_tbody:
  assumes "list_all (\<lambda>p. html_plain (name p) \<and> \<bar>seats p\<bar> < 10 ^ 21) ps"
  shows "party_tbody (loaded ps t) =
     map (\<lambda>party. \<lparr>row_name = name party, row_seats = the (number_text (seats party)),
                     checkbox_party = name party, checked = False\<rparr>) ps"
proof -
  let ?st = "(fetch (ChangePoll ''poll'') (initial\<lparr>poll_dropdown := ''poll''\<rparr>))
          \<lparr>parties := ps, total_seats_shown := t\<rparr>"
  have "party_tbody (loaded ps t) = party_tbody (populatePartyTable ?st)"
    by (simp add: loaded_def changePoll_success)
  moreover have "list_all (\<lambda>p. html_plain (name p) \<and> \<bar>seats p\<bar> < 10 ^ 21) (parties ?st)"
    using assms by simp
  ultimately show ?thesis
    by (simp only: populatePartyTable_rows) simp
qed

lemma loaded_facts:
  "parties (loaded ps t) = ps"
  "total_seats_shown (loaded ps t) = t"
  "exclusions (loaded ps t) = []"
  "inclusions (loaded ps t) = []"
  "min_parties (loaded ps t) = Some 1"
  "max_parties (loaded ps t) = Some 5"
  "alerts (loaded ps t) = []"
  "requests (loaded ps t) = [ChangePoll ''poll'', Coalitions (Some 1) (Some 5) [] []]"
  by (simp_all add: loaded_def changePoll_success initial_def fetch_def populatePartyTable_def
      updateCoalitions_sends js_gt_def)

lemma selectedParties_loaded:
  "list_all (\<lambda>p. html_plain (name p) \<and> \<bar>seats p\<bar> < 10 ^ 21) ps \<Longrightarrow>
     selectedParties (loaded ps t) = []"
  by (simp add: selectedParties_def loaded_tbody filter_empty_conv)

lemma loaded_poll_dropdown [simp]: "poll_dropdown (loaded ps t) = ''poll''"
  by (simp add: loaded_def changePoll_success initial_def fetch_def populatePartyTable_def
        populateDropdowns_def updateCoalitions_def updateSpectrum_def js_gt_def Let_def)

lemma poll100_facts:
  "parties poll100 = [mk_party ''A'' 60, mk_party ''B'' 40]"
  "total_seats_shown poll100 = 100"
  "selectedParties poll100 = [''A'']"
  "coalition_info poll100 = MoreNeeded 60 16"
  by (simp_all add: poll100_def toggle_def loaded_facts loaded_tbody plain_defs
      updateVisualization_def coalitionSeats_def selectedParties_def
      mk_party_def Let_def plus64_exact minus64_exact)

lemma poll150_facts:
  "parties poll150 = [mk_party ''A'' 80, mk_party ''B'' 70]"
  "total_seats_shown poll150 = 150"
  "selectedParties poll150 = [''A'']"
  "coalition_info poll150 = Majority 80"
  by (simp_all add: poll150_def toggle_def loaded_facts loaded_tbody plain_defs
      updateVisualization_def coalitionSeats_def selectedParties_def
      mk_party_def Let_def plus64_exact minus64_exact)

lemma two_ticked_facts:
  "parties two_ticked = [mk_party ''A'' 60, mk_party ''B'' 40, mk_party ''C'' 50]"
  "map checkbox_party (party_tbody two_ticked) = [''A'', ''B'', ''C'']"
  "map checked (party_tbody two_ticked) = [True, True, False]"
  "selectedParties two_ticked = [''A'', ''B'']"
  "coalition_info two_ticked = Majority 100"
  by (simp_all add: two_ticked_def toggle_def loaded_facts loaded_tbody plain_defs
      updateVisualization_def coalitionSeats_def selectedParties_def
      mk_party_def Let_def plus64_exact minus64_exact)

lemma huge_facts:
  "parties huge = [mk_party ''A'' 9007199254740992, mk_party ''B'' 1]"
  "map checkbox_party (party_tbody huge) = [''A'', ''B'']"
  "map checked (party_tbody huge) = [True, True]"
  "selectedParties huge = [''A'', ''B'']"
  "coalition_info huge = Majority 9007199254740992"
  by (simp_all add: huge_def toggle_def loaded_facts loaded_tbody plain_defs
      updateVisualization_def coalitionSeats_def selectedParties_def
      mk_party_def Let_def plus64_exact plus64_rounds)

lemma coalitionSeats_examples:
  "coalitionSeats two_ticked = 100" "coalitionSeats huge = 9007199254740992"
  by (simp_all add: coalitionSeats_def two_ticked_facts huge_facts mk_party_def
        plus64_exact plus64_rounds)

lemma square400_facts:
  "rect_width square400 = 400" "rect_height square400 = 400"
  "rect_left square400 = 0" "rect_top square400 = 0"
  by (simp_all add: square400_def)

lemma dragging_facts:
  "isDragging (dragState dragging)" "dragParty (dragState dragging) = Some (mk_party ''A'' 60)"
  "containerRect (dragState dragging) = Some square400"
  "min_parties dragging = Some 1" "max_parties dragging = Some 5"
  "requests dragging = [ChangePoll ''poll'', Coalitions (Some 1) (Some 5) [] []]"
  "exclusions dragging = []" "inclusions dragging = []" "poll_dropdown dragging = ''poll''"
  by (simp_all add: dragging_def startDrag_def loaded_facts)

lemma ab_excluded_lists:
  "exclusions ab_excluded = [[''A'', ''B'']]" "inclusions ab_excluded = []"
  by (simp_all add: ab_excluded_def step_lists initial_lists Let_def)

lemma ab_excluded_rejected:
  "fst (addExclusion ab_excluded) = Rejected" "fst (addInclusion ab_excluded) = Rejected"
  by (simp_all add: add_rejects ab_excluded_lists Let_def)
     (simp_all add: ab_excluded_def pick_def)

lemma some_actions_lists:
  "exclusions (run initial some_actions) = [[''A'', ''B''], [''E'']]"
  "inclusions (run initial some_actions) = [[''C'', ''D'']]"
  by (simp_all add: some_actions_def step_lists initial_lists splice1_def Let_def)

lemma gl_merged_facts:
  "exclusions gl_merged = [[''GL'', ''PvdA'']]"
  "inclusions gl_merged = []"
  "selected_value (exclude_party1 gl_merged) = ''GL-PvdA''"
  "selected_value (exclude_party2 gl_merged) = []"
  "options (exclude_party1 gl_merged) =
     [([], ''Select party''), (''GL-PvdA'', ''GL-PvdA''), (''VVD'', ''VVD'')]"
  by (simp_all add: gl_merged_def step_lists loaded_facts Let_def)
     (simp_all add: pick_def changePoll_dropdown mk_party_def plain_defs)

text \<open>The markup written for \<open>injected_roster\<close> is
  \<^verbatim>\<open><option value="">Select party</option><option value="Z">Z</option>\<close>
  \<^verbatim>\<open><option value="Z">">Z">Z</option><option value="Z"></option>\<close>.\<close>

lemma injected_options:
  "options (select_innerHTML (option_element [] ''Select party''
      @ concat (map (\<lambda>p. option_element (name p) (name p))
                  (filter (\<lambda>p. 0 < seats p) injected_roster))))
   = [([], ''Select party''), (''Z'', ''Z''),
      (''Z'', CHR 0x22 # ''>Z'' @ CHR 0x22 # ''>Z''), (''Z'', [])]"
  by code_simp

lemma injected_facts:
  "parties injected = injected_roster"
  "map seats injected_roster = [5, 0]"
  "map name (tl injected_roster) = [''Z'']"
  "distinct (map name injected_roster)"
  by (simp_all add: injected_def injected_roster_def mk_party_def quoted_def)

lemma release_at_275_200: "releasePosition square400 275 200 = (1/2, 0)"
  by code_simp

lemma release_outside: "releasePosition square400 1000 (- 3) = (1, 1)"
  by code_simp

lemma page400_pixels:
  "pixelX binary64 50 (usable binary64 400 50) tenth = 215"
  "pixelY binary64 50 (usable binary64 400 50) 0 = 200"
  unfolding tenth_def by code_simp+

lemma page400_spectrum:
  "spectrum (updateSpectrum page400) =
     [\<lparr>data_party = ''A'', style_left = 215, style_top = 200, is_selected = False\<rparr>]"
  by (simp add: updateSpectrum_def page400_def loaded_facts loaded_tbody plain_defs
        selectedParties_def Let_def
        page400_pixels)

lemma release_at_215_200:
  "releasePosition square400 215 200 = (225179981368525 / 2251799813685248, 0)"
  by code_simp

section \<open>The claims\<close>

subsection \<open>C1: the majority line\<close>

text \<open>
  C1, as stated, fails: in a poll of 100 seats, party A with 60 seats holds more than
  half of the seats, and the page reports no majority (16 more needed).
\<close>

theorem C1_counterexample:
  "total_seats_shown poll100 = 100 \<and> sum_list (map seats (parties poll100)) = 100
   \<and> coalitionSeats poll100 = 60
   \<and> real_of_int (coalitionSeats poll100) > real_of_int (total_seats_shown poll100) / 2
   \<and> \<not> is_majority (coalition_info poll100)"
  by (simp add: poll100_facts coalitionSeats_def mk_party_def is_majority_def plus64_exact)

text \<open>
  C1, amended. The selection is reported as a majority exactly when its seats are at
  least 76, that is, more than half of 150; the threshold is this constant whatever the
  dataset's total. When the dataset's total is 150, that is \<open>seats > total / 2\<close>.
\<close>

theorem C1_majority_is_76_of_150:
  "is_majority (coalition_info (updateVisualization st)) = (76 \<le> coalitionSeats st)
   \<and> is_majority (coalition_info (updateVisualization st))
       = (real_of_int (coalitionSeats st) > 150 / 2)
   \<and> (total_seats_shown st = 150 \<longrightarrow>
        is_majority (coalition_info (updateVisualization st))
          = (real_of_int (coalitionSeats st) > real_of_int (total_seats_shown st) / 2))"
  by (auto simp: info_updateVisualization is_majority_def)

theorem C1_witness:
  "total_seats_shown poll150 = 150
   \<and> is_majority (coalition_info (updateVisualization poll150))
   \<and> real_of_int (coalitionSeats poll150) > real_of_int (total_seats_shown poll150) / 2"
  using C1_majority_is_76_of_150 [of poll150]
  by (simp add: poll150_facts coalitionSeats_def mk_party_def plus64_exact)

subsection \<open>C2: duplicates and conflicts\<close>

text \<open>Where no name contains the separator, the code does decide by name sets, as C2
  says: the proposal is rejected exactly when its name set is stored already, as an
  entry of either kind, and is appended otherwise.\<close>

lemma add_by_name_sets:
  assumes can: "canonical st"
      and free: "\<forall>e\<in>set (exclusions st) \<union> set (inclusions st). \<forall>n\<in>set e. dash_free n"
      and p: "p1 \<noteq> []" "p1 \<noteq> p2" "dash_free p1" "dash_free p2"
  shows "selected_value (exclude_party1 st) = p1 \<Longrightarrow> selected_value (exclude_party2 st) = p2 \<Longrightarrow>
           (fst (addExclusion st) = Rejected) =
             (\<exists>e\<in>set (exclusions st) \<union> set (inclusions st).
                 set e = (if p2 = [] then {p1} else {p1, p2}))
           \<and> (fst (addExclusion st) \<noteq> Rejected \<longrightarrow>
                exclusions (snd (addExclusion st)) =
                  exclusions st @ [if p2 = [] then [p1] else sort [p1, p2]])"
    and "selected_value (include_party1 st) = p1 \<Longrightarrow> selected_value (include_party2 st) = p2 \<Longrightarrow>
         p2 \<noteq> [] \<Longrightarrow>
           (fst (addInclusion st) = Rejected) =
             (\<exists>e\<in>set (exclusions st) \<union> set (inclusions st). set e = {p1, p2})
           \<and> (fst (addInclusion st) \<noteq> Rejected \<longrightarrow>
                inclusions (snd (addInclusion st)) = inclusions st @ [sort [p1, p2]])"
proof -
  define e0 where "e0 = (if p2 = [] then [p1] else sort [p1, p2])"
  have e0: "length e0 = 1 \<or> length e0 = 2" "sorted e0" "distinct e0"
    "\<forall>n\<in>set e0. dash_free n" "set e0 = (if p2 = [] then {p1} else {p1, p2})"
    using p by (auto simp: e0_def sort2)
  have stored: "(length e = 1 \<or> length e = 2) \<and> sorted e \<and> distinct e \<and> (\<forall>n\<in>set e. dash_free n)"
    if "e \<in> set (exclusions st) \<union> set (inclusions st)" for e
    using can free that by auto
  have same: "(join_dash e = join_dash e0) = (set e = set e0)"
    if "e \<in> set (exclusions st) \<union> set (inclusions st)" for e
    using join_dash_eq_iff [of e e0] canonical_eq_iff [of e e0] stored [OF that] e0 by blast
  have dup: "(list_ex (\<lambda>x. join_dash x = join_dash e0) (exclusions st)
            \<or> list_ex (\<lambda>x. join_dash x = join_dash e0) (inclusions st))
         = (\<exists>e\<in>set (exclusions st) \<union> set (inclusions st). set e = set e0)"
    using same by (auto simp: list_ex_iff)
  show "(fst (addExclusion st) = Rejected) =
             (\<exists>e\<in>set (exclusions st) \<union> set (inclusions st).
                 set e = (if p2 = [] then {p1} else {p1, p2}))
           \<and> (fst (addExclusion st) \<noteq> Rejected \<longrightarrow>
                exclusions (snd (addExclusion st)) =
                  exclusions st @ [if p2 = [] then [p1] else sort [p1, p2]])"
    if "selected_value (exclude_party1 st) = p1" "selected_value (exclude_party2 st) = p2"
  proof -
    have "(fst (addExclusion st) = Rejected) =
        (list_ex (\<lambda>x. join_dash x = join_dash e0) (exclusions st)
            \<or> list_ex (\<lambda>x. join_dash x = join_dash e0) (inclusions st))"
      unfolding add_rejects(1) Let_def that e0_def using p(1,2) by simp
    then show ?thesis
      unfolding dup e0(5) by (simp add: add_lists(1) that)
  qed
  show "(fst (addInclusion st) = Rejected) =
             (\<exists>e\<in>set (exclusions st) \<union> set (inclusions st). set e = {p1, p2})
           \<and> (fst (addInclusion st) \<noteq> Rejected \<longrightarrow>
                inclusions (snd (addInclusion st)) = inclusions st @ [sort [p1, p2]])"
    if "selected_value (include_party1 st) = p1" "selected_value (include_party2 st) = p2"
       "p2 \<noteq> []"
  proof -
    have e: "e0 = sort [p1, p2]" using that(3) by (simp add: e0_def)
    have "(fst (addInclusion st) = Rejected) =
        (list_ex (\<lambda>x. join_dash x = join_dash e0) (inclusions st)
            \<or> list_ex (\<lambda>x. join_dash x = join_dash e0) (exclusions st))"
      unfolding add_rejects(2) Let_def that(1,2) e using p(1,2) that(3) by simp
    then have "(fst (addInclusion st) = Rejected) =
        (\<exists>e\<in>set (exclusions st) \<union> set (inclusions st). set e = set e0)"
      using dup by blast
    then show ?thesis
      using e0(5) that(3) by (simp add: add_lists(2) that(1,2))
  qed
qed

text \<open>
  C2: the code at the failing input. The stored exclusion is the pair GL, PvdA; the
  proposal is the single party GL-PvdA, whose name set is no stored entry of either kind.
  Both join to the text "GL-PvdA", so \<^verbatim>\<open>addExclusion\<close> rejects the proposal as a
  duplicate and stores nothing.
\<close>

theorem C2_dash_in_a_name_is_taken_for_a_pair:
  "exclusions gl_merged = [[''GL'', ''PvdA'']] \<and> inclusions gl_merged = []
   \<and> selected_value (exclude_party1 gl_merged) = ''GL-PvdA''
   \<and> selected_value (exclude_party2 gl_merged) = []
   \<and> (''GL-PvdA'', ''GL-PvdA'') \<in> set (options (exclude_party1 gl_merged))
   \<and> \<not> list_ex (\<lambda>e. set e = {''GL-PvdA''}) (exclusions gl_merged @ inclusions gl_merged)
   \<and> fst (addExclusion gl_merged) = Rejected
   \<and> alerts (snd (addExclusion gl_merged)) = alerts gl_merged @ [''This exclusion already exists'']
   \<and> exclusions (snd (addExclusion gl_merged)) = [[''GL'', ''PvdA'']]"
proof -
  have r: "fst (addExclusion gl_merged) = Rejected"
    by (simp add: add_rejects gl_merged_facts Let_def)
  have a: "alerts (snd (addExclusion gl_merged)) = alerts gl_merged @ [''This exclusion already exists'']"
    by (simp add: addExclusion_def gl_merged_facts Let_def alert_def)
  show ?thesis
    using r a by (simp add: add_lists gl_merged_facts)
qed

subsection \<open>C3: a rejected proposal\<close>

text \<open>
  C3. Whenever \<^verbatim>\<open>addExclusion\<close> or \<^verbatim>\<open>addInclusion\<close> rejects a proposal, for
  whichever of its reasons, the exclusions and the inclusions are what they were before
  the call.
\<close>

theorem C3_rejection_changes_no_list:
  "(fst (addExclusion st) = Rejected \<longrightarrow>
      exclusions (snd (addExclusion st)) = exclusions st
      \<and> inclusions (snd (addExclusion st)) = inclusions st)
   \<and> (fst (addInclusion st) = Rejected \<longrightarrow>
      exclusions (snd (addInclusion st)) = exclusions st
      \<and> inclusions (snd (addInclusion st)) = inclusions st)"
  by (simp add: addExclusion_def addInclusion_def alert_def Let_def del: sort_key_simps)

theorem C3_witness:
  "fst (addExclusion ab_excluded) = Rejected
   \<and> exclusions (snd (addExclusion ab_excluded)) = [[''A'', ''B'']]
   \<and> inclusions (snd (addExclusion ab_excluded)) = []
   \<and> fst (addInclusion ab_excluded) = Rejected
   \<and> exclusions (snd (addInclusion ab_excluded)) = [[''A'', ''B'']]
   \<and> inclusions (snd (addInclusion ab_excluded)) = []"
  using C3_rejection_changes_no_list [of ab_excluded]
  by (simp add: ab_excluded_rejected ab_excluded_lists)

subsection \<open>C4: the range check\<close>



subsection \<open>C5: stored constraints\<close>



subsection \<open>C6: parties without seats\<close>

lemma same_name_same_party:
  assumes "distinct (map name ps)" and "p \<in> set ps" and "q \<in> set ps" and "name q = name p"
  shows "q = p"
  using assms by (meson distinct_map inj_onD)




subsection \<open>C7: after a position update or a dataset switch\<close>




subsection \<open>C8: the displayed seat count\<close>

lemma sum_list_filter_nth:
  "sum_list (map f (filter P xs)) = (\<Sum>i | i < length xs \<and> P (xs ! i). f (xs ! i))"
proof (induction xs rule: rev_induct)
  case Nil
  then show ?case by simp
next
  case (snoc x xs)
  let ?A = "{i. i < length xs \<and> P (xs ! i)}"
  let ?B = "{i. i < length (xs @ [x]) \<and> P ((xs @ [x]) ! i)}"
  have fin: "finite ?A" by simp
  have notin: "length xs \<notin> ?A" by simp
  have B: "(\<Sum>i\<in>?A. f ((xs @ [x]) ! i)) = (\<Sum>i\<in>?A. f (xs ! i))"
    by (rule sum.cong) (auto simp: nth_append)
  show ?case
  proof (cases "P x")
    case True
    have "?B = insert (length xs) ?A"
      using True by (auto simp: nth_append less_Suc_eq)
    then have "(\<Sum>i\<in>?B. f ((xs @ [x]) ! i)) = f x + (\<Sum>i\<in>?A. f ((xs @ [x]) ! i))"
      by (simp only: sum.insert[OF fin notin] nth_append_length)
    then show ?thesis using snoc True B by (simp add: add.commute)
  next
    case False
    have "?B = ?A"
      using False by (auto simp: nth_append less_Suc_eq)
    then have "(\<Sum>i\<in>?B. f ((xs @ [x]) ! i)) = (\<Sum>i\<in>?A. f ((xs @ [x]) ! i))"
      by (simp only:)
    then show ?thesis using snoc False B by simp
  qed
qed

lemma ticked_names:
  "name p \<in> set (selectedParties st)
     \<longleftrightarrow> (\<exists>r\<in>set (party_tbody st). checked r \<and> checkbox_party r = name p)"
  by (force simp: selectedParties_def)

lemma coalitionSeats_exact:
  assumes "(\<Sum>p\<leftarrow>parties st. \<bar>seats p\<bar>) \<le> 2 ^ 53"
  shows "coalitionSeats st =
     sum_list (map seats (filter (\<lambda>p. name p \<in> set (selectedParties st)) (parties st)))"
proof -
  let ?sel = "filter (\<lambda>p. name p \<in> set (selectedParties st)) (parties st)"
  have "(\<Sum>p\<leftarrow>?sel. \<bar>seats p\<bar>) \<le> (\<Sum>p\<leftarrow>parties st. \<bar>seats p\<bar>)"
    by (rule sum_list_filter_le)
  then have "\<bar>0\<bar> + (\<Sum>p\<leftarrow>?sel. \<bar>seats p\<bar>) \<le> 2 ^ 53" using assms by simp
  then have "foldl (\<lambda>sum p. plus64 sum (seats p)) 0 ?sel = 0 + sum_list (map seats ?sel)"
    by (rule foldl_plus64)
  then show ?thesis by (simp add: coalitionSeats_def)
qed

text \<open>
  C8, as stated, fails: with seat numbers \<open>2^53\<close> and 1 and both boxes ticked, the
  page displays \<open>2^53\<close>, and the sum is \<open>2^53 + 1\<close>: the script adds binary64 numbers.
\<close>

theorem C8_counterexample:
  "map seats (parties huge) = [9007199254740992, 1]
   \<and> map name (parties huge) = [''A'', ''B'']
   \<and> map checkbox_party (party_tbody huge) = [''A'', ''B'']
   \<and> map checked (party_tbody huge) = [True, True]
   \<and> info_seats (coalition_info (updateVisualization huge)) = Some 9007199254740992
   \<and> sum_list (map seats (parties huge)) = 9007199254740993"
  by (simp add: huge_facts info_updateVisualization info_seats_def coalitionSeats_examples
        mk_party_def)

text \<open>
  C8, amended. For every roster whose seat numbers add up, in magnitude, to at most
  \<open>2^53\<close>, and every set of ticked checkboxes, the seat count that
  \<^verbatim>\<open>updateVisualization\<close> displays is the exact sum of the seats of precisely those
  roster entries whose name is the \<^verbatim>\<open>data-party\<close> of a ticked box; it is zero when no
  box is ticked.
\<close>

theorem C8_displayed_seats_are_the_exact_sum:
  assumes "(\<Sum>p\<leftarrow>parties st. \<bar>seats p\<bar>) \<le> 2 ^ 53"
  shows "info_seats (coalition_info (updateVisualization st)) =
     Some (\<Sum>i | i < length (parties st)
                 \<and> (\<exists>r\<in>set (party_tbody st).
                       checked r \<and> checkbox_party r = name (parties st ! i)).
             seats (parties st ! i))
   \<and> ((\<forall>r\<in>set (party_tbody st). \<not> checked r) \<longrightarrow>
        info_seats (coalition_info (updateVisualization st)) = Some 0)"
proof -
  have "coalitionSeats st =
     (\<Sum>i | i < length (parties st) \<and> name (parties st ! i) \<in> set (selectedParties st).
             seats (parties st ! i))"
    unfolding coalitionSeats_exact [OF assms] by (rule sum_list_filter_nth)
  then have "coalitionSeats st =
     (\<Sum>i | i < length (parties st)
                 \<and> (\<exists>r\<in>set (party_tbody st).
                       checked r \<and> checkbox_party r = name (parties st ! i)).
             seats (parties st ! i))"
    by (simp only: ticked_names)
  moreover have "info_seats (coalition_info (updateVisualization st)) = Some (coalitionSeats st)"
    by (simp add: info_updateVisualization info_seats_def)
  moreover have "selectedParties st = []" if "\<forall>r\<in>set (party_tbody st). \<not> checked r"
    using that by (simp add: selectedParties_def filter_empty_conv)
  then have "coalitionSeats st = 0" if "\<forall>r\<in>set (party_tbody st). \<not> checked r"
    using that by (simp add: coalitionSeats_def)
  ultimately show ?thesis by simp
qed

theorem C8_witness:
  "(\<Sum>p\<leftarrow>parties two_ticked. \<bar>seats p\<bar>) \<le> 2 ^ 53
   \<and> map seats (parties two_ticked) = [60, 40, 50]
   \<and> map name (parties two_ticked) = [''A'', ''B'', ''C'']
   \<and> map checkbox_party (party_tbody two_ticked) = [''A'', ''B'', ''C'']
   \<and> map checked (party_tbody two_ticked) = [True, True, False]
   \<and> info_seats (coalition_info (updateVisualization two_ticked)) = Some 100
   \<and> (\<Sum>i | i < length (parties two_ticked)
              \<and> (\<exists>r\<in>set (party_tbody two_ticked).
                    checked r \<and> checkbox_party r = name (parties two_ticked ! i)).
          seats (parties two_ticked ! i)) = 100
   \<and> info_seats (coalition_info (updateVisualization
         (loaded [mk_party ''A'' 60, mk_party ''B'' 40] 100))) = Some 0"
proof -
  have small: "(\<Sum>p\<leftarrow>parties two_ticked. \<bar>seats p\<bar>) \<le> 2 ^ 53"
    by (simp add: two_ticked_facts mk_party_def)
  have seats100: "info_seats (coalition_info (updateVisualization two_ticked)) = Some 100"
    by (simp add: info_updateVisualization info_seats_def coalitionSeats_examples)
  have untouched: "(\<Sum>p\<leftarrow>parties (loaded [mk_party ''A'' 60, mk_party ''B'' 40] 100).
        \<bar>seats p\<bar>) \<le> 2 ^ 53"
    "\<forall>r\<in>set (party_tbody (loaded [mk_party ''A'' 60, mk_party ''B'' 40] 100)). \<not> checked r"
    by (simp_all add: loaded_facts loaded_tbody plain_defs mk_party_def)
  show ?thesis
    using C8_displayed_seats_are_the_exact_sum [OF small]
          C8_displayed_seats_are_the_exact_sum [OF untouched(1)] untouched(2) seats100 small
    by (simp add: two_ticked_facts mk_party_def)
qed

subsection \<open>C9: pixel and back\<close>

text \<open>
  C9, as stated, fails: a party at economic 0.1 in a container of 400 by 400 pixels is
  placed at left 215, top 200, and a release at that pixel is converted to economic
  0.10000000000000009 (\<open>225179981368525 / 2^51\<close>), not to 0.1
  (\<open>3602879701896397 / 2^55\<close>): the division by the usable width and the final
  subtraction round.
\<close>

theorem C9_counterexample:
  "binary64 (1 / 10) = tenth \<and> - 1 \<le> tenth \<and> tenth \<le> 1
   \<and> map economic (parties page400) = [tenth]
   \<and> map style_left (spectrum (updateSpectrum page400)) = [215]
   \<and> map style_top (spectrum (updateSpectrum page400)) = [200]
   \<and> fst (releasePosition square400 215 200) = 225179981368525 / 2251799813685248
   \<and> fst (releasePosition square400 215 200) \<noteq> tenth"
proof -
  have "binary64 (1 / 10) = tenth" unfolding tenth_def by code_simp
  then show ?thesis
    by (simp add: page400_spectrum release_at_215_200)
       (simp add: tenth_def page400_def loaded_facts)
qed

text \<open>
  C9, amended. In the binary64 arithmetic the script runs in, the coordinate-to-pixel
  mapping of \<^verbatim>\<open>updateSpectrum\<close> followed by the pixel-to-coordinate mapping of
  \<^verbatim>\<open>handleMouseUp\<close>, with the same container dimensions (binary64 values above 100
  and at most \<open>2^53\<close>) and the padding of 50, gives back every economic and social
  value in \<open>[-1, 1]\<close> up to rounding: within \<open>d / (d - 100) / 2^49\<close> of the original,
  \<open>d\<close> being the width for the economic and the height for the social value, hence
  within \<open>2^-48\<close> for a dimension of 200 or more; the values -1 and 1 come back
  exactly. The sign flip on the social axis is undone. In arithmetic without rounding
  the two mappings are inverse to each other.
\<close>

theorem C9_round_trip:
  "(binary64 w = w \<and> 100 < w \<and> w \<le> 2 ^ 53 \<and> - 1 \<le> e \<and> e \<le> 1 \<longrightarrow>
      \<bar>toEconomic binary64 50 (usable binary64 w 50)
         (constrain binary64 50 w (pixelX binary64 50 (usable binary64 w 50) e)) - e\<bar>
        \<le> w / (w - 100) / 2 ^ 49
      \<and> (200 \<le> w \<longrightarrow>
           \<bar>toEconomic binary64 50 (usable binary64 w 50)
              (constrain binary64 50 w (pixelX binary64 50 (usable binary64 w 50) e)) - e\<bar>
             \<le> 1 / 2 ^ 48)
      \<and> (e = - 1 \<or> e = 1 \<longrightarrow>
           toEconomic binary64 50 (usable binary64 w 50)
             (constrain binary64 50 w (pixelX binary64 50 (usable binary64 w 50) e)) = e))
   \<and> (binary64 h = h \<and> 100 < h \<and> h \<le> 2 ^ 53 \<and> - 1 \<le> s \<and> s \<le> 1 \<longrightarrow>
      \<bar>toSocial binary64 50 (usable binary64 h 50)
         (constrain binary64 50 h (pixelY binary64 50 (usable binary64 h 50) s)) - s\<bar>
        \<le> h / (h - 100) / 2 ^ 49
      \<and> (200 \<le> h \<longrightarrow>
           \<bar>toSocial binary64 50 (usable binary64 h 50)
              (constrain binary64 50 h (pixelY binary64 50 (usable binary64 h 50) s)) - s\<bar>
             \<le> 1 / 2 ^ 48)
      \<and> (s = - 1 \<or> s = 1 \<longrightarrow>
           toSocial binary64 50 (usable binary64 h 50)
             (constrain binary64 50 h (pixelY binary64 50 (usable binary64 h 50) s)) = s))
   \<and> (- 1 \<le> e \<and> e \<le> 1 \<and> - 1 \<le> s \<and> s \<le> 1 \<and> 100 < w \<and> 100 < h \<longrightarrow>
      toEconomic exact 50 (usable exact w 50)
        (constrain exact 50 w (pixelX exact 50 (usable exact w 50) e)) = e
      \<and> toSocial exact 50 (usable exact h 50)
        (constrain exact 50 h (pixelY exact 50 (usable exact h 50) s)) = s)"
proof -
  have near: "\<bar>toEconomic binary64 50 (usable binary64 d 50)
         (constrain binary64 50 d (pixelX binary64 50 (usable binary64 d 50) v)) - v\<bar>
        \<le> d / (d - 100) / 2 ^ 49
      \<and> (200 \<le> d \<longrightarrow>
           \<bar>toEconomic binary64 50 (usable binary64 d 50)
              (constrain binary64 50 d (pixelX binary64 50 (usable binary64 d 50) v)) - v\<bar>
             \<le> 1 / 2 ^ 48)
      \<and> (v = - 1 \<or> v = 1 \<longrightarrow>
           toEconomic binary64 50 (usable binary64 d 50)
             (constrain binary64 50 d (pixelX binary64 50 (usable binary64 d 50) v)) = v)"
    if d: "binary64 d = d" "100 < d" "d \<le> 2 ^ 53" and v: "- 1 \<le> v" "v \<le> 1" for d v
  proof -
    let ?rt = "toEconomic binary64 50 (usable binary64 d 50)
         (constrain binary64 50 d (pixelX binary64 50 (usable binary64 d 50) v))"
    have b: "\<bar>?rt - v\<bar> \<le> d / (d - 100) / 2 ^ 49"
      using d v by (rule roundtrip_binary64_near)
    have "\<bar>?rt - v\<bar> \<le> 1 / 2 ^ 48" if "200 \<le> d"
    proof -
      have "d / (d - 100) \<le> 2" using that by (simp add: pos_divide_le_eq)
      then have "d / (d - 100) / 2 ^ 49 \<le> 2 / 2 ^ 49" by (rule divide_right_mono) simp
      also have "\<dots> = (1::real) / 2 ^ 48" by simp
      finally show ?thesis using b by linarith
    qed
    moreover have "?rt = v" if "v = - 1 \<or> v = 1"
      using roundtrip_binary64_right [OF d] roundtrip_binary64_left [OF d] that by auto
    ultimately show ?thesis using b by blast
  qed
  have soc: "toSocial binary64 50 (usable binary64 h 50)
         (constrain binary64 50 h (pixelY binary64 50 (usable binary64 h 50) s)) - s
       = - (toEconomic binary64 50 (usable binary64 h 50)
         (constrain binary64 50 h (pixelX binary64 50 (usable binary64 h 50) (- s))) - (- s))"
    by (simp add: pixelY_pixelX toSocial_toEconomic)
  have flip: "toSocial binary64 50 (usable binary64 h 50)
         (constrain binary64 50 h (pixelY binary64 50 (usable binary64 h 50) s)) = s
       \<longleftrightarrow> toEconomic binary64 50 (usable binary64 h 50)
         (constrain binary64 50 h (pixelX binary64 50 (usable binary64 h 50) (- s))) = - s"
    by (auto simp: pixelY_pixelX toSocial_toEconomic)
  have social: "\<bar>toSocial binary64 50 (usable binary64 h 50)
         (constrain binary64 50 h (pixelY binary64 50 (usable binary64 h 50) s)) - s\<bar>
        \<le> h / (h - 100) / 2 ^ 49
      \<and> (200 \<le> h \<longrightarrow>
           \<bar>toSocial binary64 50 (usable binary64 h 50)
              (constrain binary64 50 h (pixelY binary64 50 (usable binary64 h 50) s)) - s\<bar>
             \<le> 1 / 2 ^ 48)
      \<and> (s = - 1 \<or> s = 1 \<longrightarrow>
           toSocial binary64 50 (usable binary64 h 50)
             (constrain binary64 50 h (pixelY binary64 50 (usable binary64 h 50) s)) = s)"
    if h: "binary64 h = h" "100 < h" "h \<le> 2 ^ 53" and s: "- 1 \<le> s" "s \<le> 1"
  proof -
    have "- 1 \<le> - s" "- s \<le> 1" using s by simp_all
    from near [OF h this] show ?thesis
      unfolding soc flip abs_minus by auto
  qed
  show ?thesis
    using near [of w e] social roundtrip_exact_economic [of e w] roundtrip_exact_social [of s h]
    by blast
qed

theorem C9_witness:
  "binary64 400 = 400 \<and> - 1 \<le> tenth \<and> tenth \<le> 1
   \<and> toEconomic binary64 50 (usable binary64 400 50)
       (constrain binary64 50 400 (pixelX binary64 50 (usable binary64 400 50) tenth))
     = 225179981368525 / 2251799813685248
   \<and> \<bar>225179981368525 / 2251799813685248 - tenth\<bar> \<le> 400 / (400 - 100) / 2 ^ 49
   \<and> \<bar>225179981368525 / 2251799813685248 - tenth\<bar> \<le> 1 / 2 ^ 48
   \<and> toEconomic binary64 50 (usable binary64 400 50)
       (constrain binary64 50 400 (pixelX binary64 50 (usable binary64 400 50) 1)) = 1
   \<and> toSocial binary64 50 (usable binary64 400 50)
       (constrain binary64 50 400 (pixelY binary64 50 (usable binary64 400 50) (- 1))) = - 1
   \<and> \<bar>toSocial binary64 50 (usable binary64 400 50)
        (constrain binary64 50 400 (pixelY binary64 50 (usable binary64 400 50) (1 / 4)))
       - 1 / 4\<bar> \<le> 1 / 2 ^ 48
   \<and> toEconomic exact 50 (usable exact 400 50)
       (constrain exact 50 400 (pixelX exact 50 (usable exact 400 50) tenth)) = tenth"
proof -
  have rt: "toEconomic binary64 50 (usable binary64 400 50)
       (constrain binary64 50 400 (pixelX binary64 50 (usable binary64 400 50) tenth))
     = 225179981368525 / 2251799813685248"
    unfolding tenth_def by code_simp
  have t: "- 1 \<le> tenth" "tenth \<le> 1" by (simp_all add: tenth_def)
  show ?thesis
    using C9_round_trip [of 400 tenth 400 "1 / 4"] C9_round_trip [of 400 1 400 "- 1"] rt t
    by (simp add: binary64_400)
qed

subsection \<open>C10: the position sent\<close>

lemma release_in_wide:
  "binary64 (rect_width wide - 50) = 36028797018963920"
  "usable binary64 (rect_width wide) 50 = 36028797018963868"
  "releasePosition wide 72057594037927936 200 = (2251799813685249 / 2251799813685248, 0)"
  unfolding wide_def by code_simp+

text \<open>
  C10, as stated, fails: in a container \<open>2^55\<close> pixels wide, \<open>width - 50\<close> rounds to
  \<open>2^55 - 48\<close>, the usable width is \<open>2^55 - 100\<close>, and a release far to the right is
  sent as economic \<open>1 + 2^-51\<close>.
\<close>

theorem C10_counterexample:
  "100 < rect_width wide \<and> 100 < rect_height wide
   \<and> requests (handleMouseUp 72057594037927936 200 Failed
        (startDrag (mk_party ''A'' 60) wide initial))
      = [UpdatePosition ''A'' (2251799813685249 / 2251799813685248) 0]
   \<and> (1::real) < 2251799813685249 / 2251799813685248"
  by (simp add: handleMouseUp_def startDrag_def release_in_wide fetch_def mk_party_def)
     (simp add: wide_def initial_def)

text \<open>
  C10, amended. For every mouse-release position and every container whose width and
  height are above 100 and at most \<open>2^53\<close> pixels, the release pixel is first clamped
  into \<open>[padding, dimension - padding]\<close>, and the economic and social values that
  \<^verbatim>\<open>handleMouseUp\<close> sends to \<^verbatim>\<open>/api/update_position\<close> lie within \<open>[-1, 1]\<close>.
\<close>

theorem C10_sent_position_within_bounds:
  assumes "isDragging (dragState st)" and "dragParty (dragState st) = Some p"
      and "containerRect (dragState st) = Some r"
      and "binary64 (rect_width r) = rect_width r" and "100 < rect_width r"
      and "rect_width r \<le> 2 ^ 53"
      and "binary64 (rect_height r) = rect_height r" and "100 < rect_height r"
      and "rect_height r \<le> 2 ^ 53"
  shows "(\<exists>e s rest.
           requests (handleMouseUp clientX clientY response st) =
             requests st @ UpdatePosition (name p) e s # rest
           \<and> - 1 \<le> e \<and> e \<le> 1 \<and> - 1 \<le> s \<and> s \<le> 1)
      \<and> 50 \<le> constrain binary64 50 (rect_width r) (binary64 (clientX - rect_left r))
      \<and> constrain binary64 50 (rect_width r) (binary64 (clientX - rect_left r))
          \<le> rect_width r - 50
      \<and> 50 \<le> constrain binary64 50 (rect_height r) (binary64 (clientY - rect_top r))
      \<and> constrain binary64 50 (rect_height r) (binary64 (clientY - rect_top r))
          \<le> rect_height r - 50"
  using handleMouseUp_requests [OF assms(1-3), of clientX clientY response]
        releasePosition_range [OF assms(4-9), of clientX clientY]
        constrain_range [OF assms(4-6), of "binary64 (clientX - rect_left r)"]
        constrain_range [OF assms(7-9), of "binary64 (clientY - rect_top r)"]
  by blast

theorem C10_witness:
  "isDragging (dragState dragging) \<and> containerRect (dragState dragging) = Some square400
   \<and> binary64 (rect_width square400) = rect_width square400 \<and> 100 < rect_width square400
   \<and> rect_width square400 \<le> 2 ^ 53
   \<and> (\<exists>e s rest. requests (handleMouseUp 1000 (- 3) Failed dragging) =
          requests dragging @ UpdatePosition ''A'' e s # rest
          \<and> - 1 \<le> e \<and> e \<le> 1 \<and> - 1 \<le> s \<and> s \<le> 1)
   \<and> requests (handleMouseUp 1000 (- 3) Failed dragging) =
        requests dragging @ [UpdatePosition ''A'' 1 1]"
proof -
  have r: "requests (handleMouseUp 1000 (- 3) Failed dragging) =
        requests dragging @ [UpdatePosition ''A'' 1 1]"
    by (simp add: handleMouseUp_def dragging_facts release_outside fetch_def mk_party_def)
  show ?thesis
    using C10_sent_position_within_bounds
      [of dragging "mk_party ''A'' 60" square400 1000 "- 3" Failed] r
    by (simp add: dragging_facts square400_facts binary64_400 mk_party_def)
qed

end
